theory Spec2Isabelle
  imports Complex_Main
begin

section \<open>Strings\<close>

text \<open>
  Python strings are modelled as Isabelle strings: a list of characters, here the code
  points 0 to 255. \<open>isspace\<close> is Python's \<open>str.isspace\<close> on that range, which is also
  the class \<open>\s\<close> of the \<open>re\<close> module for a \<open>str\<close> pattern.
\<close>

definition isspace :: "char \<Rightarrow> bool" where
  "isspace c = (of_char c \<in> {9, 10, 11, 12, 13, 28, 29, 30, 31, 32, 133, 160 :: nat})"

text \<open>\<open>s.strip()\<close>: whitespace removed at both ends.\<close>

definition strip :: "string \<Rightarrow> string" where
  "strip s = rev (dropWhile isspace (rev (dropWhile isspace s)))"

text \<open>
  \<open>re.sub(r'\s+', ' ', s)\<close>: every maximal run of whitespace, scanned from the left, is
  replaced by one space.
\<close>

function re_sub_ws :: "string \<Rightarrow> string" where
  "re_sub_ws [] = []"
| "re_sub_ws (c # cs) =
     (if isspace c then CHR '' '' # re_sub_ws (dropWhile isspace cs) else c # re_sub_ws cs)"
  by pat_completeness auto
termination
  by (relation "measure length") (auto simp: length_dropWhile_le less_Suc_eq_le)

text \<open>\<open>def normalize(s): return re.sub(r'\s+', ' ', s.strip())\<close>\<close>

definition normalize :: "string \<Rightarrow> string" where
  "normalize s = re_sub_ws (strip s)"

text \<open>The two shapes the specification asks of a normalized text.\<close>

definition no_outer_ws :: "string \<Rightarrow> bool" where
  "no_outer_ws t = (t = [] \<or> (\<not> isspace (hd t) \<and> \<not> isspace (last t)))"

fun no_repeated_ws :: "string \<Rightarrow> bool" where
  "no_repeated_ws (a # b # cs) = (\<not> (isspace a \<and> isspace b) \<and> no_repeated_ws (b # cs))"
| "no_repeated_ws _ = True"

section \<open>Exceptions\<close>

text \<open>
  The exceptions the code can meet. The code never tells them apart: each
  \<open>except Exception\<close> catches all of them.
\<close>

datatype exn = ValueError | IndexError | NoSuchElementException | TimeoutException
  | StaleElementReferenceException | WebDriverException

section \<open>Job records and the ranking\<close>

text \<open>
  A job is the dictionary built by \<open>fetch_job_description\<close>, with its four keys; the
  key \<open>score\<close> is absent (\<open>None\<close>) until the ranking sets it on a copy.
\<close>

record job =
  url :: string
  title :: string
  company :: string
  description :: string
  score :: "real option"

text \<open>
  Dictionaries are objects: the list \<open>jobs\<close> holds references into a store. The store is
  a list, a reference is an index into it, and a new object is put at its end.
\<close>

type_synonym ref = nat
type_synonym heap = "job list"

text \<open>\<open>j.copy()\<close>: a new dictionary with the entries of \<open>j\<close>.\<close>

definition dict_copy :: "heap \<Rightarrow> ref \<Rightarrow> ref \<times> heap" where
  "dict_copy h r = (length h, h @ [h ! r])"

text \<open>\<open>d["score"] = s\<close>\<close>

definition set_score :: "heap \<Rightarrow> ref \<Rightarrow> real \<Rightarrow> heap" where
  "set_score h r s = h[r := (h ! r)\<lparr>score := Some s\<rparr>]"

text \<open>
  The numeric libraries are outside the repository and are parameters of the model:
  \<^item> \<open>tfidf_fit docs\<close> is \<open>TfidfVectorizer(stop_words="english", max_features=5000)\<close>
    fitted on \<open>docs\<close>: it raises (\<open>ValueError\<close>, an empty vocabulary) or gives the map
    from a document to its row, so that \<open>fit_transform(docs)\<close> is that map over \<open>docs\<close>;
  \<^item> \<open>dot\<close> is the product of a job row with the transposed resume row;
  \<^item> \<open>argsort\<close> is \<open>np.argsort\<close> with its default kind.
\<close>

record 'v libs =
  tfidf_fit :: "string list \<Rightarrow> exn + (string \<Rightarrow> 'v)"
  dot :: "'v \<Rightarrow> 'v \<Rightarrow> real"
  argsort :: "real list \<Rightarrow> nat list"

text \<open>
  What numpy documents of \<open>argsort\<close>: the indices that would sort the array. The default
  kind is not a stable sort, so nothing is said about equal keys.
\<close>

definition argsort_ok :: "(real list \<Rightarrow> nat list) \<Rightarrow> bool" where
  "argsort_ok f = (\<forall>xs. distinct (f xs) \<and> set (f xs) = {0..<length xs}
                     \<and> sorted (map (\<lambda>i. xs ! i) (f xs)))"

text \<open>\<open>j["description"] or j["title"] + " " + j["company"]\<close>\<close>

definition job_doc :: "job \<Rightarrow> string" where
  "job_doc j = (if description j \<noteq> [] then description j else title j @ '' '' @ company j)"

text \<open>\<open>if not docs[i].strip(): docs[i] = " "\<close>\<close>

definition blank_fix :: "string \<Rightarrow> string" where
  "blank_fix d = (if strip d = [] then '' '' else d)"

definition corpus :: "string \<Rightarrow> ref list \<Rightarrow> heap \<Rightarrow> string list" where
  "corpus resume_text jobs h = map blank_fix (resume_text # map (\<lambda>j. job_doc (h ! j)) jobs)"

text \<open>
  The slice \<open>xs[:k]\<close>: a negative \<open>k\<close> counts from the end, so \<open>xs[:-1]\<close> is all of
  \<open>xs\<close> but its last element.
\<close>

definition slice_to :: "int \<Rightarrow> 'a list \<Rightarrow> 'a list" where
  "slice_to k xs = (if k < 0 then take (length xs - nat (- k)) xs else take (nat k) xs)"

text \<open>
  The loop \<open>for idx in ranked_idx[:top_k]\<close>. \<open>jobs[idx]\<close> and \<open>sims[idx]\<close> raise
  \<open>IndexError\<close> out of range.
\<close>

fun rank_loop ::
  "ref list \<Rightarrow> real list \<Rightarrow> nat list \<Rightarrow> ref list \<Rightarrow> heap \<Rightarrow> (exn + ref list) \<times> heap" where
  "rank_loop jobs sims [] ranked h = (Inr ranked, h)"
| "rank_loop jobs sims (idx # rest) ranked h =
     (if idx < length jobs then
        (let j = jobs ! idx;
             (j_copy, h1) = dict_copy h j
         in if idx < length sims then
              rank_loop jobs sims rest (ranked @ [j_copy]) (set_score h1 j_copy (sims ! idx))
            else (Inl IndexError, h1))
      else (Inl IndexError, h))"

text \<open>
  \<open>rank_jobs_by_similarity(resume_text, jobs, top_k)\<close>: the result or the exception, and
  the store afterwards. \<open>docs\<close> starts with the resume, so \<open>X[0]\<close> is \<open>hd X\<close> and
  \<open>X[1:]\<close> is \<open>tl X\<close>. The references in \<open>jobs\<close> are read with \<open>h ! j\<close>: the facts
  below ask that they are references of the store.
\<close>

definition rank_jobs_by_similarity ::
  "'v libs \<Rightarrow> string \<Rightarrow> ref list \<Rightarrow> int \<Rightarrow> heap \<Rightarrow> (exn + ref list) \<times> heap" where
  "rank_jobs_by_similarity L resume_text jobs top_k h =
     (let docs = corpus resume_text jobs h
      in case tfidf_fit L docs of
           Inl e \<Rightarrow> (Inl e, h)
         | Inr transform \<Rightarrow>
             (let X = map transform docs;
                  resume_vec = hd X;
                  job_vecs = tl X;
                  sims = map (\<lambda>v. dot L v resume_vec) job_vecs;
                  ranked_idx = argsort L (map uminus sims)
              in rank_loop jobs sims (slice_to top_k ranked_idx) [] h))"

text \<open>The records a result refers to, read in the store it comes with.\<close>

definition ranked_records :: "(exn + ref list) \<times> heap \<Rightarrow> job list" where
  "ranked_records res = (case res of (Inl e, h) \<Rightarrow> [] | (Inr rs, h) \<Rightarrow> map (\<lambda>r. h ! r) rs)"

text \<open>A call that returned: it did not raise.\<close>

definition returned :: "(exn + 'a) \<times> 's \<Rightarrow> bool" where
  "returned res = (case fst res of Inl e \<Rightarrow> False | Inr x \<Rightarrow> True)"

text \<open>The references a result holds are all new ones: none is below \<open>n\<close>.\<close>

definition fresh_refs :: "nat \<Rightarrow> (exn + ref list) \<times> heap \<Rightarrow> bool" where
  "fresh_refs n res = (case fst res of Inl e \<Rightarrow> True | Inr rs \<Rightarrow> list_all (\<lambda>r. n \<le> r) rs)"

subsection \<open>Stand-ins for the libraries, for examples\<close>

text \<open>
  A row is the length of the document and the product of two rows is the smaller one.
  \<open>argsort_via pre\<close> sorts the indices by key with a stable sort, after \<open>pre\<close> has
  rearranged them: with \<open>id\<close> equal keys keep their order. It gives the indices that sort
  the array.
\<close>

definition argsort_via ::
  "((real \<times> nat) list \<Rightarrow> (real \<times> nat) list) \<Rightarrow> real list \<Rightarrow> nat list" where
  "argsort_via pre xs = map snd (sort_key fst (pre (zip xs [0..<length xs])))"

definition toy_libs :: "nat libs" where
  "toy_libs = \<lparr> tfidf_fit = (\<lambda>docs. Inr length), dot = (\<lambda>a b. real (min a b)),
                argsort = argsort_via id \<rparr>"

definition mk_job :: "string \<Rightarrow> string \<Rightarrow> string \<Rightarrow> string \<Rightarrow> job" where
  "mk_job u t c d = \<lparr> url = u, title = t, company = c, description = d, score = None \<rparr>"

definition toy_heap :: heap where
  "toy_heap = [mk_job ''u0'' ''t0'' ''c0'' ''ab'', mk_job ''u1'' ''t1'' ''c1'' ''abcd'',
               mk_job ''u2'' ''t2'' ''c2'' ''abc'']"

definition twin_heap :: heap where
  "twin_heap = [mk_job ''u0'' ''t0'' ''c0'' ''same text'', mk_job ''u1'' ''t1'' ''c1'' ''same text'']"

subsection \<open>The default sort of numpy\<close>

text \<open>
  \<open>np.argsort(-sims)\<close> is called with \<open>kind\<close> left at its default, \<open>quicksort\<close>. For an
  index array the portable implementation of that kind in numpy is \<open>aquicksort\<close> of
  \<open>npysort/quicksort.cpp\<close>, which is transcribed here. \<open>v\<close> is the array of keys and \<open>a\<close>
  the index array \<open>tosort\<close>; where the C code has pointers into \<open>tosort\<close>, here are
  positions in \<open>a\<close>: \<open>pl\<close>, \<open>pm\<close>, \<open>pr\<close>, and \<open>p_i\<close>, \<open>p_j\<close>, \<open>p_k\<close> for \<open>pi\<close>, \<open>pj\<close>, \<open>pk\<close>.
  While a range has more than 16 entries after its first, the median of its first,
  middle and last key is put before the last position and the range is partitioned
  around it, by two scans that stop at a key equal to the pivot and swap what they
  stopped at; a shorter range is sorted by insertion. The partition changes the order of
  equal keys, the insertion does not.

  Not modelled: the order of NaN (a score is never NaN); and the heapsort that numpy
  switches to when partitions nest deeper than twice the position of the highest bit of
  the length: such a range is sorted by insertion here, and no example below comes
  there. A build of numpy that dispatches to a vectorised sort can put equal keys in
  another order; of the kinds of sort, only \<open>stable\<close> promises their order.
\<close>

text \<open>\<open>INTP_SWAP(a[i], a[j])\<close>\<close>

definition intp_swap :: "nat list \<Rightarrow> nat \<Rightarrow> nat \<Rightarrow> nat list" where
  "intp_swap a i j = a[i := a ! j, j := a ! i]"

text \<open>The three conditional swaps that order the keys at \<open>pl\<close>, \<open>pm\<close> and \<open>pr\<close>.\<close>

definition median_of_three :: "real list \<Rightarrow> nat list \<Rightarrow> nat \<Rightarrow> nat \<Rightarrow> nat \<Rightarrow> nat list" where
  "median_of_three v a pl pm pr =
     (let a1 = (if v ! (a ! pm) < v ! (a ! pl) then intp_swap a pm pl else a);
          a2 = (if v ! (a1 ! pr) < v ! (a1 ! pm) then intp_swap a1 pr pm else a1)
      in if v ! (a2 ! pm) < v ! (a2 ! pl) then intp_swap a2 pm pl else a2)"

text \<open>
  \<open>do { ++pi; } while (v[*pi] < vp)\<close>, called at the position after \<open>pi\<close>: it stops at the
  pivot at the latest, and the first argument bounds it by the end of the range.
\<close>

fun scan_up :: "real list \<Rightarrow> nat list \<Rightarrow> real \<Rightarrow> nat \<Rightarrow> nat \<Rightarrow> nat" where
  "scan_up v a vp 0 p_i = p_i"
| "scan_up v a vp (Suc n) p_i = (if v ! (a ! p_i) < vp then scan_up v a vp n (Suc p_i) else p_i)"

text \<open>\<open>do { --pj; } while (vp < v[*pj])\<close>, called at \<open>pj\<close>.\<close>

fun scan_down :: "real list \<Rightarrow> nat list \<Rightarrow> real \<Rightarrow> nat \<Rightarrow> nat" where
  "scan_down v a vp 0 = 0"
| "scan_down v a vp (Suc p_j) = (if vp < v ! (a ! p_j) then scan_down v a vp p_j else p_j)"

text \<open>
  The loop \<open>for (;;)\<close> of the partition: the two scans, \<open>break\<close> when they have met, a swap
  otherwise. It makes at most one turn for each entry of the range, which the first
  argument counts.
\<close>

fun partition_loop ::
  "nat \<Rightarrow> real list \<Rightarrow> real \<Rightarrow> nat \<Rightarrow> nat list \<Rightarrow> nat \<Rightarrow> nat \<Rightarrow> nat list \<times> nat" where
  "partition_loop 0 v vp pr a p_i p_j = (a, p_i)"
| "partition_loop (Suc n) v vp pr a p_i p_j =
     (let p_i' = scan_up v a vp (pr - Suc p_i) (Suc p_i);
          p_j' = scan_down v a vp p_j
      in if p_j' \<le> p_i' then (a, p_i')
         else partition_loop n v vp pr (intp_swap a p_i' p_j') p_i' p_j')"

text \<open>
  The insertion sort of a short range: \<open>while (pj > pl && vp < v[*pk]) { *pj-- = *pk--; }\<close>
  and then \<open>*pj = vi\<close>, with \<open>pj\<close> one after \<open>pk\<close>.
\<close>

fun shift_down :: "real list \<Rightarrow> nat \<Rightarrow> nat \<Rightarrow> nat list \<Rightarrow> nat \<Rightarrow> nat list" where
  "shift_down v vi pl a 0 = a[0 := vi]"
| "shift_down v vi pl a (Suc p_k) =
     (if pl < Suc p_k \<and> v ! vi < v ! (a ! p_k) then shift_down v vi pl (a[Suc p_k := a ! p_k]) p_k
      else a[Suc p_k := vi])"

definition insertion_sort :: "real list \<Rightarrow> nat list \<Rightarrow> nat \<Rightarrow> nat \<Rightarrow> nat list" where
  "insertion_sort v a pl pr =
     foldl (\<lambda>a p_i. shift_down v (a ! p_i) pl a p_i) a [Suc pl..<Suc pr]"

text \<open>
  The sort of the range from \<open>pl\<close> to \<open>pr\<close>. The C code keeps the larger part on a stack
  and goes on with the smaller one; the parts do not overlap, so the order in which they
  are sorted does not matter. The first argument is the depth left.
\<close>

fun aquicksort :: "nat \<Rightarrow> real list \<Rightarrow> nat list \<Rightarrow> nat \<Rightarrow> nat \<Rightarrow> nat list" where
  "aquicksort 0 v a pl pr = insertion_sort v a pl pr"
| "aquicksort (Suc depth) v a pl pr =
     (if 16 < pr - pl then
        (let pm = pl + (pr - pl) div 2;
             a1 = median_of_three v a pl pm pr;
             vp = v ! (a1 ! pm);
             a2 = intp_swap a1 pm (pr - 1);
             (a3, p_i) = partition_loop (pr - pl) v vp pr a2 pl (pr - 1);
             a4 = intp_swap a3 p_i (pr - 1)
         in aquicksort depth v (aquicksort depth v a4 pl (p_i - 1)) (p_i + 1) pr)
      else insertion_sort v a pl pr)"

text \<open>\<open>npy_get_msb\<close>: the position of the highest bit.\<close>

fun npy_get_msb :: "nat \<Rightarrow> nat" where
  "npy_get_msb n = (if n < 2 then 0 else Suc (npy_get_msb (n div 2)))"

definition np_argsort :: "real list \<Rightarrow> nat list" where
  "np_argsort v =
     aquicksort (Suc (2 * npy_get_msb (length v))) v [0..<length v] 0 (length v - 1)"

text \<open>
  The stand-ins for the vectorizer as above, with the sort of numpy; and eighteen jobs
  with the same description, whose URLs are the letters from a to r.
\<close>

definition np_libs :: "nat libs" where
  "np_libs = \<lparr> tfidf_fit = (\<lambda>docs. Inr length), dot = (\<lambda>a b. real (min a b)),
               argsort = np_argsort \<rparr>"

definition same_heap :: heap where
  "same_heap = map (\<lambda>c. mk_job [c] ''t'' ''c'' ''same text'') ''abcdefghijklmnopqr''"

section \<open>The browser\<close>

text \<open>
  The browser session is outside the repository. It is a state \<open>'w\<close> and a record of the
  Selenium operations the code calls: each takes the state and gives the value returned or
  the exception raised, and the next state. \<open>time.sleep\<close> lets the page change and
  raises nothing; its duration is not modelled.
\<close>

type_synonym elem = nat

datatype locator = XPATH | TAG_NAME

datatype jsval = JNone | JNum int

record 'w webdriver =
  drv_get :: "string \<Rightarrow> 'w \<Rightarrow> (exn + unit) \<times> 'w"
  drv_execute_script :: "string \<Rightarrow> 'w \<Rightarrow> (exn + jsval) \<times> 'w"
  drv_find_elements :: "locator \<Rightarrow> string \<Rightarrow> 'w \<Rightarrow> (exn + elem list) \<times> 'w"
  drv_find_element :: "locator \<Rightarrow> string \<Rightarrow> 'w \<Rightarrow> (exn + elem) \<times> 'w"
  drv_wait_presence :: "nat \<Rightarrow> locator \<Rightarrow> string \<Rightarrow> 'w \<Rightarrow> (exn + elem) \<times> 'w"
  drv_wait_clickable :: "nat \<Rightarrow> locator \<Rightarrow> string \<Rightarrow> 'w \<Rightarrow> (exn + elem) \<times> 'w"
  el_text :: "elem \<Rightarrow> 'w \<Rightarrow> (exn + string) \<times> 'w"
  el_get_attribute :: "elem \<Rightarrow> string \<Rightarrow> 'w \<Rightarrow> (exn + string option) \<times> 'w"
  el_is_displayed :: "elem \<Rightarrow> 'w \<Rightarrow> (exn + bool) \<times> 'w"
  el_is_enabled :: "elem \<Rightarrow> 'w \<Rightarrow> (exn + bool) \<times> 'w"
  el_click :: "elem \<Rightarrow> 'w \<Rightarrow> (exn + unit) \<times> 'w"
  el_clear :: "elem \<Rightarrow> 'w \<Rightarrow> (exn + unit) \<times> 'w"
  el_send_keys :: "elem \<Rightarrow> string \<Rightarrow> 'w \<Rightarrow> (exn + unit) \<times> 'w"
  time_sleep :: "'w \<Rightarrow> 'w"
  os_abspath :: "string \<Rightarrow> string"

text \<open>What the code prints, one constructor for each \<open>print\<close> of the application flow.\<close>

datatype msg = NoEasyApplyFound string | ClickedEasyApply | ClickFailed exn | UploadedResume
  | ResumeUploadFailed exn | FilledTextareaForCover | FilledFirstVisibleTextarea
  | CoverTextareaFillFailed exn | FilledContenteditable | FilledPhone
  | ReachedFinalStep string | AutoSubmitted | AutoSubmitFailed exn | PausingForManualReview
  | DidNotFindFinalSubmit

text \<open>What a run does to the browser and the console, in order.\<close>

datatype event = Get string | ExecuteScript string | FindElements locator string
  | FindElement locator string | WaitPresence nat locator string | WaitClickable nat locator string
  | Text elem | GetAttribute elem string | IsDisplayed elem | IsEnabled elem
  | Click elem | Clear elem | SendKeys elem string | Sleep | Print msg

text \<open>
  A piece of code run against the browser: from a state, the value returned or the
  exception raised, the state afterwards and the events of the run.
\<close>

type_synonym ('w, 'a) prog = "'w \<Rightarrow> (exn + 'a) \<times> 'w \<times> event list"

definition ret :: "'a \<Rightarrow> ('w, 'a) prog" where
  "ret x w = (Inr x, w, [])"

text \<open>Sequencing: an exception of the first part skips the second.\<close>

definition bnd :: "('w, 'a) prog \<Rightarrow> ('a \<Rightarrow> ('w, 'b) prog) \<Rightarrow> ('w, 'b) prog" where
  "bnd m f w = (case m w of
       (Inl e, w1, t1) \<Rightarrow> (Inl e, w1, t1)
     | (Inr x, w1, t1) \<Rightarrow> (case f x w1 of (r, w2, t2) \<Rightarrow> (r, w2, t1 @ t2)))"

text \<open>\<open>try: m except Exception as e: h\<close>\<close>

definition try_except :: "('w, 'a) prog \<Rightarrow> (exn \<Rightarrow> ('w, 'a) prog) \<Rightarrow> ('w, 'a) prog" where
  "try_except m h w = (case m w of
       (Inl e, w1, t1) \<Rightarrow> (case h e w1 of (r, w2, t2) \<Rightarrow> (r, w2, t1 @ t2))
     | (Inr x, w1, t1) \<Rightarrow> (Inr x, w1, t1))"

definition call :: "event \<Rightarrow> ('w \<Rightarrow> (exn + 'a) \<times> 'w) \<Rightarrow> ('w, 'a) prog" where
  "call ev f w = (case f w of (r, w1) \<Rightarrow> (r, w1, [ev]))"

definition sleep :: "'w webdriver \<Rightarrow> ('w, unit) prog" where
  "sleep d w = (Inr (), time_sleep d w, [Sleep])"

definition print :: "msg \<Rightarrow> ('w, unit) prog" where
  "print m w = (Inr (), w, [Print m])"

definition get :: "'w webdriver \<Rightarrow> string \<Rightarrow> ('w, unit) prog" where
  "get d u = call (Get u) (drv_get d u)"

definition execute_script :: "'w webdriver \<Rightarrow> string \<Rightarrow> ('w, jsval) prog" where
  "execute_script d s = call (ExecuteScript s) (drv_execute_script d s)"

definition find_elements :: "'w webdriver \<Rightarrow> locator \<Rightarrow> string \<Rightarrow> ('w, elem list) prog" where
  "find_elements d b s = call (FindElements b s) (drv_find_elements d b s)"

definition find_element :: "'w webdriver \<Rightarrow> locator \<Rightarrow> string \<Rightarrow> ('w, elem) prog" where
  "find_element d b s = call (FindElement b s) (drv_find_element d b s)"

text \<open>
  \<open>WebDriverWait(driver, t).until(EC.presence_of_element_located((b, s)))\<close> and
  \<open>... EC.element_to_be_clickable((b, s))\<close>: the element, or \<open>TimeoutException\<close>.
\<close>

definition wait_presence :: "'w webdriver \<Rightarrow> nat \<Rightarrow> locator \<Rightarrow> string \<Rightarrow> ('w, elem) prog" where
  "wait_presence d t b s = call (WaitPresence t b s) (drv_wait_presence d t b s)"

definition wait_clickable :: "'w webdriver \<Rightarrow> nat \<Rightarrow> locator \<Rightarrow> string \<Rightarrow> ('w, elem) prog" where
  "wait_clickable d t b s = call (WaitClickable t b s) (drv_wait_clickable d t b s)"

definition text_of :: "'w webdriver \<Rightarrow> elem \<Rightarrow> ('w, string) prog" where
  "text_of d e = call (Text e) (el_text d e)"

definition get_attribute :: "'w webdriver \<Rightarrow> elem \<Rightarrow> string \<Rightarrow> ('w, string option) prog" where
  "get_attribute d e a = call (GetAttribute e a) (el_get_attribute d e a)"

definition is_displayed :: "'w webdriver \<Rightarrow> elem \<Rightarrow> ('w, bool) prog" where
  "is_displayed d e = call (IsDisplayed e) (el_is_displayed d e)"

definition is_enabled :: "'w webdriver \<Rightarrow> elem \<Rightarrow> ('w, bool) prog" where
  "is_enabled d e = call (IsEnabled e) (el_is_enabled d e)"

definition click :: "'w webdriver \<Rightarrow> elem \<Rightarrow> ('w, unit) prog" where
  "click d e = call (Click e) (el_click d e)"

definition clear :: "'w webdriver \<Rightarrow> elem \<Rightarrow> ('w, unit) prog" where
  "clear d e = call (Clear e) (el_clear d e)"

definition send_keys :: "'w webdriver \<Rightarrow> elem \<Rightarrow> string \<Rightarrow> ('w, unit) prog" where
  "send_keys d e s = call (SendKeys e s) (el_send_keys d e s)"

text \<open>The events of a run put after the events \<open>t1\<close> of what ran before it.\<close>

definition after :: "event list \<Rightarrow> 'r \<times> 'w \<times> event list \<Rightarrow> 'r \<times> 'w \<times> event list" where
  "after t1 res = (case res of (r, w, t) \<Rightarrow> (r, w, t1 @ t))"

subsection \<open>String operations of Python\<close>

fun startswith :: "string \<Rightarrow> string \<Rightarrow> bool" where
  "startswith s [] = True"
| "startswith [] (k # ks) = False"
| "startswith (c # cs) (k # ks) = (c = k \<and> startswith cs ks)"

text \<open>\<open>k in s\<close>: \<open>k\<close> is a substring of \<open>s\<close>.\<close>

fun py_in :: "string \<Rightarrow> string \<Rightarrow> bool" where
  "py_in k [] = (k = [])"
| "py_in k (c # cs) = (startswith (c # cs) k \<or> py_in k cs)"

text \<open>\<open>any(k in s for k in ks)\<close>\<close>

definition any_in :: "string list \<Rightarrow> string \<Rightarrow> bool" where
  "any_in ks s = list_ex (\<lambda>k. py_in k s) ks"

definition lower_char :: "char \<Rightarrow> char" where
  "lower_char c = (let n = of_char c :: nat
     in if (65 \<le> n \<and> n \<le> 90) \<or> (192 \<le> n \<and> n \<le> 222 \<and> n \<noteq> 215) then char_of (n + 32) else c)"

definition lower :: "string \<Rightarrow> string" where
  "lower s = map lower_char s"

text \<open>\<open>x or ""\<close> for an attribute that may be \<open>None\<close>.\<close>

definition or_empty :: "string option \<Rightarrow> string" where
  "or_empty x = (case x of None \<Rightarrow> [] | Some s \<Rightarrow> s)"

text \<open>\<open>"\n".join(texts)\<close>\<close>

fun join_nl :: "string list \<Rightarrow> string" where
  "join_nl [] = []"
| "join_nl [t] = t"
| "join_nl (t # u # ts) = t @ [CHR 0x0A] @ join_nl (u # ts)"

section \<open>The link harvester\<close>




definition scroll_height_js :: string where
  "scroll_height_js = ''return document.body.scrollHeight''"


lemma bnd_cong [fundef_cong]:
  "m = m' \<Longrightarrow> w = w' \<Longrightarrow> (\<And>x w1. f x w1 = f' x w1) \<Longrightarrow> bnd m f w = bnd m' f' w'"
  by (simp add: bnd_def split: prod.split sum.split)








section \<open>The detail extractor\<close>

definition title_xpath :: string where
  "title_xpath = ''//h1''"

definition company_xpath :: string where
  "company_xpath = ''//a[contains(@href,'/company/') or contains(@class,'topcard__org-name')]''"

definition company_fallback_xpath :: string where
  "company_fallback_xpath = ''//span[contains(@class,'topcard__flavor')]''"

definition desc_selectors :: "string list" where
  "desc_selectors =
     [''//div[contains(@class,'description')]'',
      ''//div[contains(@class,'job-description')]'',
      ''//div[contains(@class,'jobs-description')]'',
      ''//div[contains(@class,'show-more-less-html__markup')]'',
      ''//section[contains(@class,'description')]'']"

definition job_details_xpath :: string where
  "job_details_xpath = ''//div[@id='job-details']''"

text \<open>A piece of code that raises nothing, as a \<open>prog\<close>.\<close>

definition lift :: "('w \<Rightarrow> 'a \<times> 'w \<times> event list) \<Rightarrow> ('w, 'a) prog" where
  "lift p w = (case p w of (x, w1, t) \<Rightarrow> (Inr x, w1, t))"

lemma try_except_cong [fundef_cong]:
  "m = m' \<Longrightarrow> w = w' \<Longrightarrow> (\<And>e w1. h e w1 = h' e w1) \<Longrightarrow> try_except m h w = try_except m' h' w'"
  by (simp add: try_except_def split: prod.split sum.split)

text \<open>\<open>try: el = driver.find_element(By.XPATH, "//h1"); title = el.text.strip()\<close>,
  and \<open>title\<close> stays \<open>""\<close> on an exception.\<close>

definition read_title :: "'w webdriver \<Rightarrow> ('w, string) prog" where
  "read_title d =
     try_except
       (bnd (find_element d XPATH title_xpath) (\<lambda>el.
        bnd (text_of d el) (\<lambda>t. ret (strip t))))
       (\<lambda>_. ret [])"

definition read_company :: "'w webdriver \<Rightarrow> ('w, string) prog" where
  "read_company d =
     try_except
       (bnd (find_element d XPATH company_xpath) (\<lambda>el.
        bnd (text_of d el) (\<lambda>t. ret (strip t))))
       (\<lambda>_. try_except
          (bnd (find_element d XPATH company_fallback_xpath) (\<lambda>el.
           bnd (text_of d el) (\<lambda>t. ret (strip t))))
          (\<lambda>_. ret []))"

text \<open>
  The loop \<open>for n in nodes\<close> inside the \<open>try\<close>. The list \<open>texts\<close> keeps what was
  appended before an exception, so the loop gives \<open>texts\<close> and whether it raised.
\<close>

fun collect_texts ::
  "'w webdriver \<Rightarrow> elem list \<Rightarrow> string list \<Rightarrow> 'w \<Rightarrow> (string list \<times> bool) \<times> 'w \<times> event list" where
  "collect_texts d [] texts w = ((texts, False), w, [])"
| "collect_texts d (n # ns) texts w =
     (case text_of d n w of
        (Inl e, w1, t1) \<Rightarrow> ((texts, True), w1, t1)
      | (Inr s, w1, t1) \<Rightarrow>
          (let t = strip s
           in after t1 (collect_texts d ns (if 50 < length t then texts @ [t] else texts) w1)))"

text \<open>
  The loop \<open>for sel in desc_selectors\<close>: \<open>break\<close> when the \<open>try\<close> ran to its end with
  \<open>texts\<close> not empty, \<open>continue\<close> on an exception, the next selector otherwise.
\<close>

fun desc_loop ::
  "'w webdriver \<Rightarrow> string list \<Rightarrow> string list \<Rightarrow> 'w \<Rightarrow> string list \<times> 'w \<times> event list" where
  "desc_loop d [] texts w = (texts, w, [])"
| "desc_loop d (sel # sels) texts w =
     (case find_elements d XPATH sel w of
        (Inl e, w1, t1) \<Rightarrow> after t1 (desc_loop d sels texts w1)
      | (Inr nodes, w1, t1) \<Rightarrow>
          (case collect_texts d nodes texts w1 of
             ((texts', raised), w2, t2) \<Rightarrow>
               if \<not> raised \<and> texts' \<noteq> [] then (texts', w2, t1 @ t2)
               else after (t1 @ t2) (desc_loop d sels texts' w2)))"

text \<open>
  \<open>if not texts: try: big = driver.find_element(...); if big: texts.append(big.text)\<close>.
  An element is always true.
\<close>

definition job_details_fallback :: "'w webdriver \<Rightarrow> string list \<Rightarrow> ('w, string list) prog" where
  "job_details_fallback d texts =
     (if texts = [] then
        try_except
          (bnd (find_element d XPATH job_details_xpath) (\<lambda>big.
           bnd (text_of d big) (\<lambda>t. ret (texts @ [t]))))
          (\<lambda>_. ret texts)
      else ret texts)"

text \<open>\<open>fetch_job_description(driver, job_url, timeout)\<close>\<close>

definition fetch_job_description :: "'w webdriver \<Rightarrow> string \<Rightarrow> nat \<Rightarrow> ('w, job) prog" where
  "fetch_job_description d job_url timeout =
     bnd (get d job_url) (\<lambda>_.
     bnd (try_except (bnd (wait_presence d timeout TAG_NAME ''body'') (\<lambda>_. ret ()))
            (\<lambda>_. ret ())) (\<lambda>_.
     bnd (sleep d) (\<lambda>_.
     bnd (read_title d) (\<lambda>title.
     bnd (read_company d) (\<lambda>company.
     bnd (lift (desc_loop d desc_selectors [])) (\<lambda>texts.
     bnd (job_details_fallback d texts) (\<lambda>texts.
     ret \<lparr> url = job_url, title = normalize title, company = normalize company,
           description = normalize (strip (join_nl texts)), score = None \<rparr>)))))))"

text \<open>The record a run returned, if it returned one.\<close>

definition fetched :: "(exn + job) \<times> 'w \<times> event list \<Rightarrow> job option" where
  "fetched res = (case fst res of Inl e \<Rightarrow> None | Inr j \<Rightarrow> Some j)"

text \<open>
  A job page that does not change: whatever the state, each locator of the description
  finds the elements \<open>nodes\<close> gives, each element has the text \<open>txt\<close> gives, and the
  search for the job-details container ends as \<open>jd\<close> says.
\<close>

definition static_job_page ::
  "'w webdriver \<Rightarrow> (string \<Rightarrow> elem list) \<Rightarrow> (elem \<Rightarrow> string) \<Rightarrow> exn + elem \<Rightarrow> bool" where
  "static_job_page d nodes txt jd =
     ((\<forall>w sel. fst (drv_find_elements d XPATH sel w) = Inr (nodes sel))
      \<and> (\<forall>w n. fst (el_text d n w) = Inr (txt n))
      \<and> (\<forall>w. fst (drv_find_element d XPATH job_details_xpath w) = jd))"

text \<open>The texts of the elements a locator finds that are longer than 50 characters.\<close>

definition qualifying :: "(string \<Rightarrow> elem list) \<Rightarrow> (elem \<Rightarrow> string) \<Rightarrow> string \<Rightarrow> string list" where
  "qualifying nodes txt sel = filter (\<lambda>t. 50 < length t) (map (\<lambda>n. strip (txt n)) (nodes sel))"

text \<open>
  The description as the claim C7 words it: the first locator that finds any element
  decides, and the job-details container is used when no text qualifies.
\<close>

definition description_as_claimed ::
  "string list \<Rightarrow> (string \<Rightarrow> elem list) \<Rightarrow> (elem \<Rightarrow> string) \<Rightarrow> exn + elem \<Rightarrow> string" where
  "description_as_claimed sels nodes txt jd =
     (let texts = (case filter (\<lambda>sel. nodes sel \<noteq> []) sels of
                     [] \<Rightarrow> []
                   | sel # _ \<Rightarrow> qualifying nodes txt sel)
      in join_nl (if texts \<noteq> [] then texts
                  else (case jd of Inl e \<Rightarrow> [] | Inr big \<Rightarrow> [txt big])))"

text \<open>
  The description as the code computes it on such a page: the first locator that gives
  any qualifying text decides.
\<close>

fun first_qualifying ::
  "(string \<Rightarrow> elem list) \<Rightarrow> (elem \<Rightarrow> string) \<Rightarrow> string list \<Rightarrow> string list" where
  "first_qualifying nodes txt [] = []"
| "first_qualifying nodes txt (sel # sels) =
     (if qualifying nodes txt sel \<noteq> [] then qualifying nodes txt sel
      else first_qualifying nodes txt sels)"

definition description_by_first_qualifying ::
  "string list \<Rightarrow> (string \<Rightarrow> elem list) \<Rightarrow> (elem \<Rightarrow> string) \<Rightarrow> exn + elem \<Rightarrow> string" where
  "description_by_first_qualifying sels nodes txt jd =
     (let texts = first_qualifying nodes txt sels
      in join_nl (if texts \<noteq> [] then texts
                  else (case jd of Inl e \<Rightarrow> [] | Inr big \<Rightarrow> [txt big])))"

section \<open>The application flow driver\<close>

definition scroll_to_js :: string where
  "scroll_to_js = ''window.scrollTo(0, 500);''"

definition easy_apply_xpath :: string where
  "easy_apply_xpath = ''//button[.//span[contains(text(),'Easy Apply')]]''"

definition easy_apply_loose_xpath :: string where
  "easy_apply_loose_xpath = ''//button[contains(.,'Apply') and contains(.,'Easy')]''"

definition dialog_xpath :: string where
  "dialog_xpath = ''//div[contains(@role,'dialog')]''"

definition file_input_xpath :: string where
  "file_input_xpath = ''//input[@type='file']''"

definition contenteditable_xpath :: string where
  "contenteditable_xpath = ''//div[@contenteditable='true']''"

definition phone_xpath :: string where
  "phone_xpath = ''//input[@type='tel' or contains(@name,'phone') or contains(@id,'phone')]''"

definition submit_xpath :: string where
  "submit_xpath = ''//button[.//span[contains(text(),'Submit') or contains(text(),'Apply') or contains(text(),'Done')]]''"

definition next_xpath :: string where
  "next_xpath = ''//button[.//span[contains(text(),'Next')]]''"

definition continue_xpath :: string where
  "continue_xpath = ''//button[.//span[contains(text(),'Continue')]]''"

definition close_xpath :: string where
  "close_xpath = ''//button[contains(@aria-label,'Dismiss') or contains(@aria-label,'Close')]''"

definition textarea_keywords :: "string list" where
  "textarea_keywords = [''cover'', ''message'', ''note'', ''why'', ''summary'', ''additional'', ''about'']"

definition contenteditable_keywords :: "string list" where
  "contenteditable_keywords = [''cover'', ''message'', ''summary'', ''why'']"

definition final_keywords :: "string list" where
  "final_keywords = [''submit'', ''apply'', ''done'']"

text \<open>\<open>any(k in ph or k in name for k in [...])\<close>\<close>

definition textarea_matches :: "string option \<Rightarrow> string option \<Rightarrow> bool" where
  "textarea_matches ph nm =
     list_ex (\<lambda>k. py_in k (lower (or_empty ph)) \<or> py_in k (lower (or_empty nm))) textarea_keywords"

text \<open>\<open>any(k in aria for k in [...])\<close>\<close>

definition contenteditable_matches :: "string option \<Rightarrow> bool" where
  "contenteditable_matches aria = any_in contenteditable_keywords (lower (or_empty aria))"

text \<open>\<open>def safe_send_keys(el, text)\<close>\<close>

definition safe_send_keys :: "'w webdriver \<Rightarrow> elem \<Rightarrow> string \<Rightarrow> ('w, unit) prog" where
  "safe_send_keys d el s = bnd (try_except (clear d el) (\<lambda>_. ret ())) (\<lambda>_. send_keys d el s)"

text \<open>Lines 254 to 257: open the page, wait, scroll, wait.\<close>

definition open_job_page :: "'w webdriver \<Rightarrow> string \<Rightarrow> ('w, unit) prog" where
  "open_job_page d job_url =
     bnd (get d job_url) (\<lambda>_.
     bnd (sleep d) (\<lambda>_.
     bnd (execute_script d scroll_to_js) (\<lambda>_.
     sleep d)))"

text \<open>Lines 259 to 269: the Easy Apply button, or \<open>None\<close>.\<close>

definition find_easy_btn :: "'w webdriver \<Rightarrow> ('w, elem option) prog" where
  "find_easy_btn d =
     try_except
       (bnd (wait_clickable d 4 XPATH easy_apply_xpath) (\<lambda>b. ret (Some b)))
       (\<lambda>_. try_except
          (bnd (find_element d XPATH easy_apply_loose_xpath) (\<lambda>b. ret (Some b)))
          (\<lambda>_. ret None))"

text \<open>Lines 286 to 296: the resume goes to the first file input that is displayed.\<close>

fun upload_loop :: "'w webdriver \<Rightarrow> string \<Rightarrow> elem list \<Rightarrow> ('w, unit) prog" where
  "upload_loop d path [] w = ret () w"
| "upload_loop d path (fi # fis) w =
     bnd (is_displayed d fi) (\<lambda>v.
       if v then bnd (send_keys d fi (os_abspath d path)) (\<lambda>_.
                 bnd (print UploadedResume) (\<lambda>_. sleep d))
       else upload_loop d path fis) w"

definition upload_resume :: "'w webdriver \<Rightarrow> string option \<Rightarrow> ('w, unit) prog" where
  "upload_resume d resume_path =
     (case resume_path of
        None \<Rightarrow> ret ()
      | Some p \<Rightarrow>
          if p \<noteq> [] then
            try_except (bnd (find_elements d XPATH file_input_xpath) (upload_loop d p))
              (\<lambda>e. print (ResumeUploadFailed e))
          else ret ())"

text \<open>Lines 302 to 309: the first textarea whose placeholder or name has a keyword.\<close>

fun keyword_loop :: "'w webdriver \<Rightarrow> string \<Rightarrow> elem list \<Rightarrow> ('w, bool) prog" where
  "keyword_loop d cover [] w = ret False w"
| "keyword_loop d cover (ta # tas) w =
     bnd (get_attribute d ta ''placeholder'') (\<lambda>ph.
     bnd (get_attribute d ta ''name'') (\<lambda>nm.
       if textarea_matches ph nm then
         bnd (safe_send_keys d ta cover) (\<lambda>_.
         bnd (print FilledTextareaForCover) (\<lambda>_. ret True))
       else keyword_loop d cover tas)) w"

text \<open>Lines 310 to 316: else the first textarea that is displayed.\<close>

fun visible_loop :: "'w webdriver \<Rightarrow> string \<Rightarrow> elem list \<Rightarrow> ('w, bool) prog" where
  "visible_loop d cover [] w = ret False w"
| "visible_loop d cover (ta # tas) w =
     bnd (is_displayed d ta) (\<lambda>v.
       if v then bnd (safe_send_keys d ta cover) (\<lambda>_.
                 bnd (print FilledFirstVisibleTextarea) (\<lambda>_. ret True))
       else visible_loop d cover tas) w"

definition fill_textareas :: "'w webdriver \<Rightarrow> string \<Rightarrow> ('w, unit) prog" where
  "fill_textareas d cover =
     try_except
       (bnd (find_elements d TAG_NAME ''textarea'') (\<lambda>textareas.
        bnd (keyword_loop d cover textareas) (\<lambda>filled.
          if \<not> filled \<and> textareas \<noteq> [] then
            bnd (visible_loop d cover textareas) (\<lambda>_. ret ())
          else ret ())))
       (\<lambda>e. print (CoverTextareaFillFailed e))"

text \<open>Lines 320 to 330: the editable regions, whether or not a textarea was filled.\<close>

fun contenteditable_loop :: "'w webdriver \<Rightarrow> string \<Rightarrow> elem list \<Rightarrow> ('w, unit) prog" where
  "contenteditable_loop d cover [] w = ret () w"
| "contenteditable_loop d cover (dv # dvs) w =
     bnd (get_attribute d dv ''aria-label'') (\<lambda>aria.
       if contenteditable_matches aria then
         bnd (click d dv) (\<lambda>_.
         bnd (send_keys d dv (take 1000 cover)) (\<lambda>_.
         print FilledContenteditable))
       else contenteditable_loop d cover dvs) w"

definition fill_contenteditable :: "'w webdriver \<Rightarrow> string \<Rightarrow> ('w, unit) prog" where
  "fill_contenteditable d cover =
     (if strip cover \<noteq> [] then
        try_except (bnd (find_elements d XPATH contenteditable_xpath) (contenteditable_loop d cover))
          (\<lambda>_. ret ())
      else ret ())"

definition fill_cover :: "'w webdriver \<Rightarrow> string option \<Rightarrow> ('w, unit) prog" where
  "fill_cover d cover_text =
     (case cover_text of
        None \<Rightarrow> ret ()
      | Some c \<Rightarrow>
          if c \<noteq> [] then bnd (fill_textareas d c) (\<lambda>_. fill_contenteditable d c)
          else ret ())"

text \<open>Lines 332 to 341: the phone goes to the first phone input that is displayed.\<close>

fun phone_loop :: "'w webdriver \<Rightarrow> string \<Rightarrow> elem list \<Rightarrow> ('w, unit) prog" where
  "phone_loop d phone [] w = ret () w"
| "phone_loop d phone (ip # ips) w =
     bnd (is_displayed d ip) (\<lambda>v.
       if v then bnd (safe_send_keys d ip phone) (\<lambda>_. print FilledPhone)
       else phone_loop d phone ips) w"

definition fill_phone :: "'w webdriver \<Rightarrow> string option \<Rightarrow> ('w, unit) prog" where
  "fill_phone d phone =
     (case phone of
        None \<Rightarrow> ret ()
      | Some p \<Rightarrow>
          if p \<noteq> [] then
            try_except (bnd (find_elements d XPATH phone_xpath) (phone_loop d p)) (\<lambda>_. ret ())
          else ret ())"

definition fill_fields ::
  "'w webdriver \<Rightarrow> string option \<Rightarrow> string option \<Rightarrow> string option \<Rightarrow> ('w, unit) prog" where
  "fill_fields d resume_path cover_text phone =
     bnd (upload_resume d resume_path) (\<lambda>_.
     bnd (fill_cover d cover_text) (\<lambda>_.
     fill_phone d phone))"

text \<open>
  Lines 348 to 368, the search for the final button in one turn of the step loop:
  \<open>Some b\<close> when the function returns \<open>b\<close> there, \<open>None\<close> when the turn goes on.
\<close>

definition try_submit :: "'w webdriver \<Rightarrow> bool \<Rightarrow> ('w, bool option) prog" where
  "try_submit d auto_submit =
     try_except
       (bnd (find_element d XPATH submit_xpath) (\<lambda>submit_btn.
        bnd (text_of d submit_btn) (\<lambda>s.
          let txt = lower s
          in if any_in final_keywords txt then
               bnd (print (ReachedFinalStep txt)) (\<lambda>_.
                 if auto_submit then
                   try_except
                     (bnd (click d submit_btn) (\<lambda>_.
                      bnd (print AutoSubmitted) (\<lambda>_.
                      bnd (sleep d) (\<lambda>_. ret (Some True)))))
                     (\<lambda>e. bnd (print (AutoSubmitFailed e)) (\<lambda>_. ret (Some False)))
                 else
                   bnd (print PausingForManualReview) (\<lambda>_.
                   bnd (sleep d) (\<lambda>_. ret (Some True))))
             else ret None)))
       (\<lambda>_. ret None)"

text \<open>Lines 370 to 377: click Next, else Continue; whether one was clicked.\<close>

fun next_loop :: "'w webdriver \<Rightarrow> string list \<Rightarrow> ('w, bool) prog" where
  "next_loop d [] w = ret False w"
| "next_loop d (xp # xps) w =
     bnd (try_except
            (bnd (find_element d XPATH xp) (\<lambda>btn.
             bnd (is_displayed d btn) (\<lambda>displayed.
               if displayed then
                 bnd (is_enabled d btn) (\<lambda>enabled.
                   if enabled then bnd (click d btn) (\<lambda>_. bnd (sleep d) (\<lambda>_. ret True))
                   else ret False)
               else ret False)))
            (\<lambda>_. ret False))
       (\<lambda>clicked. if clicked then ret True else next_loop d xps) w"

text \<open>
  The loop \<open>for _ in range(max_steps)\<close>: \<open>Some b\<close> when the function returns \<open>b\<close> inside
  the loop, \<open>None\<close> when the loop ends, by \<open>break\<close> or after its last turn.
\<close>

fun step_loop :: "nat \<Rightarrow> 'w webdriver \<Rightarrow> bool \<Rightarrow> ('w, bool option) prog" where
  "step_loop 0 d auto_submit w = ret None w"
| "step_loop (Suc n) d auto_submit w =
     bnd (sleep d) (\<lambda>_.
     bnd (try_submit d auto_submit) (\<lambda>r.
       case r of
         Some b \<Rightarrow> ret (Some b)
       | None \<Rightarrow>
           bnd (next_loop d [next_xpath, continue_xpath]) (\<lambda>clicked.
             if clicked then step_loop n d auto_submit else ret None))) w"

definition close_modal :: "'w webdriver \<Rightarrow> ('w, unit) prog" where
  "close_modal d = try_except (bnd (find_element d XPATH close_xpath) (click d)) (\<lambda>_. ret ())"

definition max_steps :: nat where
  "max_steps = 8"

definition run_steps :: "'w webdriver \<Rightarrow> bool \<Rightarrow> ('w, bool) prog" where
  "run_steps d auto_submit =
     bnd (step_loop max_steps d auto_submit) (\<lambda>r.
       case r of
         Some b \<Rightarrow> ret b
       | None \<Rightarrow>
           bnd (print DidNotFindFinalSubmit) (\<lambda>_.
           bnd (close_modal d) (\<lambda>_. ret False)))"

text \<open>
  \<open>click_easy_apply_and_fill(driver, job_url, resume_path, cover_text, phone, auto_submit)\<close>
\<close>

definition click_easy_apply_and_fill ::
  "'w webdriver \<Rightarrow> string \<Rightarrow> string option \<Rightarrow> string option \<Rightarrow> string option \<Rightarrow> bool
     \<Rightarrow> ('w, bool) prog" where
  "click_easy_apply_and_fill d job_url resume_path cover_text phone auto_submit =
     bnd (open_job_page d job_url) (\<lambda>_.
     bnd (find_easy_btn d) (\<lambda>easy_btn.
       case easy_btn of
         None \<Rightarrow> bnd (print (NoEasyApplyFound job_url)) (\<lambda>_. ret False)
       | Some b \<Rightarrow>
           bnd (try_except
                  (bnd (click d b) (\<lambda>_. bnd (print ClickedEasyApply) (\<lambda>_. ret True)))
                  (\<lambda>e. bnd (print (ClickFailed e)) (\<lambda>_. ret False))) (\<lambda>clicked.
             if \<not> clicked then ret False
             else
               bnd (sleep d) (\<lambda>_.
               bnd (try_except (bnd (wait_presence d 6 XPATH dialog_xpath) (\<lambda>_. ret ()))
                      (\<lambda>_. ret ())) (\<lambda>_.
               bnd (sleep d) (\<lambda>_.
               bnd (fill_fields d resume_path cover_text phone) (\<lambda>_.
               run_steps d auto_submit)))))))"

text \<open>The events of a run.\<close>

definition events :: "'r \<times> 'w \<times> event list \<Rightarrow> event list" where
  "events res = snd (snd res)"

text \<open>The prints of the final step of the flow.\<close>

fun is_final_msg :: "event \<Rightarrow> bool" where
  "is_final_msg (Print (ReachedFinalStep txt)) = True"
| "is_final_msg (Print AutoSubmitted) = True"
| "is_final_msg (Print (AutoSubmitFailed e)) = True"
| "is_final_msg _ = False"

text \<open>A run that never comes to the final step.\<close>

definition quiet :: "'r \<times> 'w \<times> event list \<Rightarrow> bool" where
  "quiet res = list_all (\<lambda>ev. \<not> is_final_msg ev) (events res)"

text \<open>
  The events of a run end with the pause at the final button \<open>b\<close>: the button is
  located, its text is read, the two messages are printed and the driver sleeps; nothing
  before that belongs to the final step.
\<close>

definition ends_with_pause :: "event list \<Rightarrow> bool" where
  "ends_with_pause t = (\<exists>pre b txt. t = pre @ [FindElement XPATH submit_xpath, Text b,
       Print (ReachedFinalStep txt), Print PausingForManualReview, Sleep]
     \<and> list_all (\<lambda>ev. \<not> is_final_msg ev) pre)"

text \<open>A run that returns \<open>True\<close> after the pause at the final button.\<close>

definition pauses :: "(exn + bool) \<times> 'w \<times> event list \<Rightarrow> bool" where
  "pauses res = (fst res = Inr True \<and> ends_with_pause (events res))"

definition reached_final_step :: "event list \<Rightarrow> bool" where
  "reached_final_step t = (\<exists>txt. Print (ReachedFinalStep txt) \<in> set t)"

fun is_send_keys :: "event \<Rightarrow> bool" where
  "is_send_keys (SendKeys e s) = True"
| "is_send_keys _ = False"

fun is_click :: "event \<Rightarrow> bool" where
  "is_click (Click e) = True"
| "is_click _ = False"

text \<open>
  The run has a search for the final button after which the final step is reported and
  no click is made, and before which the final step was not reported.
\<close>

definition no_click_since_final_found :: "event list \<Rightarrow> bool" where
  "no_click_since_final_found t = (\<exists>pre post. t = pre @ FindElement XPATH submit_xpath # post
     \<and> \<not> reached_final_step pre \<and> reached_final_step post
     \<and> list_all (\<lambda>ev. \<not> is_click ev) post)"

text \<open>
  A form that does not change: the textareas and the editable regions found, their
  attributes and whether they are displayed are the same whatever the state, and so is
  whether a click on an element returns (\<open>clk\<close>). Nothing is asked of typing: an element
  may refuse the keys sent to it.
\<close>

definition static_form ::
  "'w webdriver \<Rightarrow> elem list \<Rightarrow> (elem \<Rightarrow> string option) \<Rightarrow> (elem \<Rightarrow> string option)
     \<Rightarrow> (elem \<Rightarrow> bool) \<Rightarrow> elem list \<Rightarrow> (elem \<Rightarrow> string option) \<Rightarrow> (elem \<Rightarrow> bool) \<Rightarrow> bool" where
  "static_form d tas ph nm vis dvs aria clk =
     ((\<forall>w. fst (drv_find_elements d TAG_NAME ''textarea'' w) = Inr tas)
      \<and> (\<forall>w e. fst (el_get_attribute d e ''placeholder'' w) = Inr (ph e))
      \<and> (\<forall>w e. fst (el_get_attribute d e ''name'' w) = Inr (nm e))
      \<and> (\<forall>w e. fst (el_is_displayed d e w) = Inr (vis e))
      \<and> (\<forall>w. fst (drv_find_elements d XPATH contenteditable_xpath w) = Inr dvs)
      \<and> (\<forall>w e. fst (el_get_attribute d e ''aria-label'' w) = Inr (aria e))
      \<and> (\<forall>w e. returned (el_click d e w) = clk e))"

text \<open>
  Where the cover text goes as the claim C6 words it: the editable regions are tried
  only when no textarea took the text, with the keywords of the textareas.
\<close>

definition cover_targets_as_claimed ::
  "elem list \<Rightarrow> (elem \<Rightarrow> string option) \<Rightarrow> (elem \<Rightarrow> string option) \<Rightarrow> (elem \<Rightarrow> bool)
     \<Rightarrow> elem list \<Rightarrow> (elem \<Rightarrow> string option) \<Rightarrow> string \<Rightarrow> event list" where
  "cover_targets_as_claimed tas ph nm vis dvs aria cover =
     (case find (\<lambda>ta. textarea_matches (ph ta) (nm ta)) tas of
        Some ta \<Rightarrow> [SendKeys ta cover]
      | None \<Rightarrow>
          (case find vis tas of
             Some ta \<Rightarrow> [SendKeys ta cover]
           | None \<Rightarrow>
               (case find (\<lambda>dv. any_in textarea_keywords (lower (or_empty (aria dv)))) dvs of
                  Some dv \<Rightarrow> [SendKeys dv (take 1000 cover)]
                | None \<Rightarrow> [])))"

text \<open>
  Where the cover text is sent in the code: to a textarea as above, and then, whenever
  the cover text is not blank, to the first editable region whose label has one of the
  four keywords of \<open>contenteditable_keywords\<close>, unless the click on that region raises.
\<close>

definition cover_targets ::
  "elem list \<Rightarrow> (elem \<Rightarrow> string option) \<Rightarrow> (elem \<Rightarrow> string option) \<Rightarrow> (elem \<Rightarrow> bool)
     \<Rightarrow> elem list \<Rightarrow> (elem \<Rightarrow> string option) \<Rightarrow> (elem \<Rightarrow> bool) \<Rightarrow> string \<Rightarrow> event list" where
  "cover_targets tas ph nm vis dvs aria clk cover =
     (case find (\<lambda>ta. textarea_matches (ph ta) (nm ta)) tas of
        Some ta \<Rightarrow> [SendKeys ta cover]
      | None \<Rightarrow> (case find vis tas of Some ta \<Rightarrow> [SendKeys ta cover] | None \<Rightarrow> []))
     @ (if strip cover \<noteq> [] then
          (case find (\<lambda>dv. contenteditable_matches (aria dv)) dvs of
             Some dv \<Rightarrow> if clk dv then [SendKeys dv (take 1000 cover)] else []
           | None \<Rightarrow> [])
        else [])"

section \<open>A simulated browser, for examples\<close>

text \<open>
  A page is what the locators find on it and what its elements show. The simulated
  driver reads the current page of its state; \<open>find_element\<close> raises when nothing is
  found, a wait raises a timeout, a click or keys sent to a stuck element raise, and a
  click on a forward element changes the state. \<open>get\<close> refuses a URL that does not
  start with \<open>http\<close>.
\<close>

record page =
  pg_found :: "((locator \<times> string) \<times> elem list) list"
  pg_text :: "(elem \<times> string) list"
  pg_attr :: "((elem \<times> string) \<times> string) list"
  pg_hidden :: "elem list"
  pg_disabled :: "elem list"
  pg_stuck :: "elem list"
  pg_forward :: "elem list"
  pg_height :: int

definition blank_page :: page where
  "blank_page = \<lparr> pg_found = [], pg_text = [], pg_attr = [], pg_hidden = [], pg_disabled = [],
     pg_stuck = [], pg_forward = [], pg_height = 0 \<rparr>"

definition found :: "page \<Rightarrow> locator \<Rightarrow> string \<Rightarrow> elem list" where
  "found pg b s = (case map_of (pg_found pg) (b, s) of None \<Rightarrow> [] | Some es \<Rightarrow> es)"

definition first_found :: "exn \<Rightarrow> elem list \<Rightarrow> exn + elem" where
  "first_found e es = (case es of [] \<Rightarrow> Inl e | x # _ \<Rightarrow> Inr x)"

definition sim_driver :: "('w \<Rightarrow> page) \<Rightarrow> ('w \<Rightarrow> 'w) \<Rightarrow> 'w webdriver" where
  "sim_driver cur forward = \<lparr>
     drv_get = (\<lambda>u w. (if startswith u ''http'' then Inr () else Inl WebDriverException, w)),
     drv_execute_script = (\<lambda>s w.
        (Inr (if s = scroll_height_js then JNum (pg_height (cur w)) else JNone), w)),
     drv_find_elements = (\<lambda>b s w. (Inr (found (cur w) b s), w)),
     drv_find_element = (\<lambda>b s w. (first_found NoSuchElementException (found (cur w) b s), w)),
     drv_wait_presence = (\<lambda>t b s w. (first_found TimeoutException (found (cur w) b s), w)),
     drv_wait_clickable = (\<lambda>t b s w.
        (first_found TimeoutException
           (filter (\<lambda>e. e \<notin> set (pg_hidden (cur w)) \<and> e \<notin> set (pg_disabled (cur w)))
              (found (cur w) b s)), w)),
     el_text = (\<lambda>e w. (Inr (or_empty (map_of (pg_text (cur w)) e)), w)),
     el_get_attribute = (\<lambda>e a w. (Inr (map_of (pg_attr (cur w)) (e, a)), w)),
     el_is_displayed = (\<lambda>e w. (Inr (e \<notin> set (pg_hidden (cur w))), w)),
     el_is_enabled = (\<lambda>e w. (Inr (e \<notin> set (pg_disabled (cur w))), w)),
     el_click = (\<lambda>e w.
        if e \<in> set (pg_stuck (cur w)) then (Inl WebDriverException, w)
        else if e \<in> set (pg_forward (cur w)) then (Inr (), forward w) else (Inr (), w)),
     el_clear = (\<lambda>e w. (Inr (), w)),
     el_send_keys = (\<lambda>e s w.
        (if e \<in> set (pg_stuck (cur w)) then Inl WebDriverException else Inr (), w)),
     time_sleep = (\<lambda>w. w),
     os_abspath = (\<lambda>p. if startswith p ''/'' then p else ''/home/user/'' @ p) \<rparr>"

text \<open>One page that never changes, and a sequence of pages shown one after the other.\<close>

definition fixed_page :: "page \<Rightarrow> unit webdriver" where
  "fixed_page pg = sim_driver (\<lambda>_. pg) (\<lambda>w. w)"

definition wizard :: "page list webdriver" where
  "wizard = sim_driver (\<lambda>w. case w of [] \<Rightarrow> blank_page | pg # _ \<Rightarrow> pg) tl"


text \<open>
  A job page on which the first description locator finds a short label only and the
  fourth finds the description.
\<close>

definition long_text :: string where
  "long_text = ''We are looking for an engineer who writes proofs about programs.''"

definition label_first_page :: page where
  "label_first_page = blank_page \<lparr>
     pg_found := [((XPATH, ''//div[contains(@class,'description')]''), [1]),
                  ((XPATH, ''//div[contains(@class,'show-more-less-html__markup')]''), [2]),
                  ((XPATH, ''//h1''), [3])],
     pg_text := [(1, ''Apply now''), (2, long_text), (3, ''  Proof   Engineer '')] \<rparr>"

text \<open>A job page whose Easy Apply button cannot be clicked.\<close>

definition stuck_button_page :: page where
  "stuck_button_page = blank_page \<lparr>
     pg_found := [((XPATH, easy_apply_xpath), [7])],
     pg_text := [(7, ''Easy Apply'')],
     pg_stuck := [7] \<rparr>"

text \<open>
  An application in three steps: the job page with its Easy Apply button, two pages with
  a Next button, and the review page with the button that submits.
\<close>

definition job_page :: page where
  "job_page = blank_page \<lparr>
     pg_found := [((XPATH, easy_apply_xpath), [1])],
     pg_text := [(1, ''Easy Apply'')],
     pg_forward := [1] \<rparr>"

definition next_page :: page where
  "next_page = blank_page \<lparr>
     pg_found := [((XPATH, next_xpath), [10])],
     pg_text := [(10, ''Next'')],
     pg_forward := [10] \<rparr>"

definition review_page :: page where
  "review_page = blank_page \<lparr>
     pg_found := [((XPATH, submit_xpath), [20])],
     pg_text := [(20, ''Submit application'')] \<rparr>"

definition three_steps :: "page list" where
  "three_steps = [job_page, next_page, next_page, review_page]"

text \<open>
  A form with a textarea and an editable region, both for the cover letter, and a form
  with an editable region labelled as a note and no textarea.
\<close>

definition cover_form_page :: page where
  "cover_form_page = blank_page \<lparr>
     pg_found := [((TAG_NAME, ''textarea''), [1]), ((XPATH, contenteditable_xpath), [2])],
     pg_attr := [((1, ''placeholder''), ''your cover letter''),
                 ((2, ''aria-label''), ''cover letter'')] \<rparr>"

definition note_form_page :: page where
  "note_form_page = blank_page \<lparr>
     pg_found := [((XPATH, contenteditable_xpath), [3])],
     pg_attr := [((3, ''aria-label''), ''additional note'')] \<rparr>"



text \<open>
  A job page whose Easy Apply button is disabled and has its label outside any \<open>span\<close>:
  the wait for a clickable button times out, the second locator finds the button, and a
  click on it raises nothing and changes nothing.
\<close>

definition disabled_button_page :: page where
  "disabled_button_page = blank_page \<lparr>
     pg_found := [((XPATH, easy_apply_loose_xpath), [7])],
     pg_text := [(7, ''Easy Apply'')],
     pg_disabled := [7] \<rparr>"

text \<open>
  A job page whose Easy Apply button stays on the page after the click. Its label
  contains Apply, so the locator of the final button finds it as well.
\<close>

definition lasting_button_page :: page where
  "lasting_button_page = blank_page \<lparr>
     pg_found := [((XPATH, easy_apply_xpath), [1]), ((XPATH, easy_apply_loose_xpath), [1]),
                  ((XPATH, submit_xpath), [1])],
     pg_text := [(1, ''Easy Apply'')] \<rparr>"

text \<open>
  A form with a plain textarea, a textarea for the cover letter that refuses the keys
  sent to it, and an editable region for the cover letter that refuses the click.
\<close>

definition refusing_form_page :: page where
  "refusing_form_page = blank_page \<lparr>
     pg_found := [((TAG_NAME, ''textarea''), [1, 4]), ((XPATH, contenteditable_xpath), [2])],
     pg_attr := [((4, ''placeholder''), ''your cover letter''),
                 ((2, ''aria-label''), ''cover letter'')],
     pg_stuck := [4, 2] \<rparr>"

section \<open>Facts about the normalizer\<close>

lemma isspace_space: "isspace CHR '' ''"
  by (simp add: isspace_def)

lemma dropWhile_head: "dropWhile P xs = [] \<or> \<not> P (hd (dropWhile P xs))"
  by (metis hd_dropWhile)

lemma re_sub_ws_head:
  "xs = [] \<or> \<not> isspace (hd xs) \<Longrightarrow> re_sub_ws xs = [] \<or> \<not> isspace (hd (re_sub_ws xs))"
  by (cases xs) auto

lemma re_sub_ws_keeps_head:
  "xs = [] \<or> \<not> isspace (hd xs) \<Longrightarrow> dropWhile isspace (re_sub_ws xs) = re_sub_ws xs"
  by (cases xs) auto

lemma re_sub_ws_idem: "re_sub_ws (re_sub_ws xs) = re_sub_ws xs"
proof (induction xs rule: re_sub_ws.induct)
  case 1
  then show ?case by simp
next
  case (2 c cs)
  show ?case
  proof (cases "isspace c")
    case True
    have "dropWhile isspace (re_sub_ws (dropWhile isspace cs)) = re_sub_ws (dropWhile isspace cs)"
      by (rule re_sub_ws_keeps_head) (rule dropWhile_head)
    with True 2 show ?thesis by (simp add: isspace_space)
  next
    case False
    with 2 show ?thesis by simp
  qed
qed

lemma re_sub_ws_last:
  "xs \<noteq> [] \<Longrightarrow> \<not> isspace (last xs) \<Longrightarrow>
   re_sub_ws xs \<noteq> [] \<and> last (re_sub_ws xs) = last xs"
proof (induction xs rule: re_sub_ws.induct)
  case 1
  then show ?case by simp
next
  case (2 c cs)
  show ?case
  proof (cases "isspace c")
    case True
    with 2 have ne: "dropWhile isspace cs \<noteq> []"
      by (metis dropWhile_eq_Nil_conv last_ConsR last_in_set last_ConsL)
    have "last (dropWhile isspace cs) = last cs"
      using ne by (metis last_appendR takeWhile_dropWhile_id)
    moreover have "cs \<noteq> []" using ne by auto
    ultimately show ?thesis using 2 True ne by simp
  next
    case False
    with 2 show ?thesis by (cases cs) auto
  qed
qed

lemma re_sub_ws_no_repeat: "no_repeated_ws (re_sub_ws xs)"
proof (induction xs rule: re_sub_ws.induct)
  case 1
  then show ?case by simp
next
  case (2 c cs)
  show ?case
  proof (cases "isspace c")
    case True
    let ?r = "re_sub_ws (dropWhile isspace cs)"
    have "?r = [] \<or> \<not> isspace (hd ?r)"
      by (rule re_sub_ws_head) (rule dropWhile_head)
    with True 2 show ?thesis by (cases ?r) auto
  next
    case False
    with 2 show ?thesis by (cases "re_sub_ws cs") auto
  qed
qed

lemma strip_no_outer_ws: "no_outer_ws (strip s)"
proof -
  let ?a = "dropWhile isspace s"
  let ?b = "dropWhile isspace (rev ?a)"
  show ?thesis
  proof (cases "?b = []")
    case True
    then show ?thesis by (simp add: no_outer_ws_def strip_def)
  next
    case False
    then have nb: "\<not> isspace (hd ?b)" using dropWhile_head [of isspace "rev ?a"] by blast
    from False have la: "last (rev ?b) = hd ?b" by (simp add: last_rev)
    obtain ts where ts: "rev ?a = ts @ ?b"
      by (metis takeWhile_dropWhile_id)
    then have a: "?a = rev ?b @ rev ts" by (metis rev_append rev_rev_ident)
    from False have ane: "?a \<noteq> []" by (metis dropWhile.simps(1) rev.simps(1))
    then have "\<not> isspace (hd ?a)" using dropWhile_head [of isspace s] by blast
    moreover have "hd ?a = hd (rev ?b)" using a False by (metis hd_append2 rev_is_Nil_conv)
    ultimately show ?thesis using nb la False by (simp add: no_outer_ws_def strip_def)
  qed
qed

lemma strip_fixed:
  assumes "no_outer_ws xs"
  shows "strip xs = xs"
proof (cases "xs = []")
  case True
  then show ?thesis by (simp add: strip_def)
next
  case False
  with assms have h: "\<not> isspace (hd xs)" and l: "\<not> isspace (last xs)"
    by (auto simp: no_outer_ws_def)
  from h False have 1: "dropWhile isspace xs = xs" by (cases xs) auto
  from False have "hd (rev xs) = last xs" by (simp add: hd_rev)
  with l have "\<not> isspace (hd (rev xs))" by simp
  then have 2: "dropWhile isspace (rev xs) = rev xs" by (cases "rev xs") auto
  show ?thesis by (simp add: strip_def 1 2)
qed

lemma normalize_no_outer_ws: "no_outer_ws (normalize s)"
proof (cases "strip s = []")
  case True
  then show ?thesis by (simp add: normalize_def no_outer_ws_def)
next
  case False
  have o: "no_outer_ws (strip s)" by (rule strip_no_outer_ws)
  with False have h: "\<not> isspace (hd (strip s))" and l: "\<not> isspace (last (strip s))"
    by (auto simp: no_outer_ws_def)
  from False l have "re_sub_ws (strip s) \<noteq> [] \<and> last (re_sub_ws (strip s)) = last (strip s)"
    by (rule re_sub_ws_last)
  moreover from h False have "hd (re_sub_ws (strip s)) = hd (strip s)"
    by (cases "strip s") auto
  ultimately show ?thesis using h l by (simp add: normalize_def no_outer_ws_def)
qed

lemma normalize_no_repeated_ws: "no_repeated_ws (normalize s)"
  by (simp add: normalize_def re_sub_ws_no_repeat)

lemma normalize_fixed: "normalize (normalize s) = normalize s"
proof -
  have "strip (normalize s) = normalize s"
    by (rule strip_fixed) (rule normalize_no_outer_ws)
  then show ?thesis by (simp add: normalize_def re_sub_ws_idem)
qed

lemma normalize_empty: "normalize [] = []"
  by (simp add: normalize_def strip_def)

section \<open>Facts about the ranking\<close>

lemma rank_loop_heap_prefix:
  "take (length h) (snd (rank_loop jobs sims idxs ranked h)) = h"
proof (induction idxs arbitrary: ranked h)
  case Nil
  then show ?case by simp
next
  case (Cons idx rest)
  let ?h2 = "set_score (h @ [h ! (jobs ! idx)]) (length h) (sims ! idx)"
  have "take (length ?h2) (snd (rank_loop jobs sims rest (ranked @ [length h]) ?h2)) = ?h2"
    by (rule Cons.IH)
  then have "take (length h) (take (length ?h2)
      (snd (rank_loop jobs sims rest (ranked @ [length h]) ?h2))) = take (length h) ?h2"
    by simp
  then have "take (length h) (snd (rank_loop jobs sims rest (ranked @ [length h]) ?h2)) = h"
    by (simp add: set_score_def min_def)
  then show ?case by (simp add: dict_copy_def Let_def)
qed

lemma rank_loop_fresh:
  "list_all (\<lambda>r. n \<le> r) ranked \<Longrightarrow> n \<le> length h \<Longrightarrow>
   fresh_refs n (rank_loop jobs sims idxs ranked h)"
proof (induction idxs arbitrary: ranked h)
  case Nil
  then show ?case by (simp add: fresh_refs_def)
next
  case (Cons idx rest)
  let ?h2 = "set_score (h @ [h ! (jobs ! idx)]) (length h) (sims ! idx)"
  have "fresh_refs n (rank_loop jobs sims rest (ranked @ [length h]) ?h2)"
    using Cons.prems by (intro Cons.IH) (auto simp: set_score_def)
  then show ?case by (simp add: dict_copy_def Let_def fresh_refs_def)
qed

lemma rank_loop_closed:
  assumes "\<forall>i\<in>set idxs. i < length jobs \<and> i < length sims"
    and "\<forall>r\<in>set jobs. r < length h0"
    and "take (length h0) h = h0"
  shows "rank_loop jobs sims idxs ranked h =
    (Inr (ranked @ [length h ..< length h + length idxs]),
     h @ map (\<lambda>idx. (h0 ! (jobs ! idx))\<lparr>score := Some (sims ! idx)\<rparr>) idxs)"
  using assms
proof (induction idxs arbitrary: ranked h)
  case Nil
  then show ?case by simp
next
  case (Cons idx rest)
  from Cons.prems have i: "idx < length jobs" "idx < length sims" by auto
  then have j: "jobs ! idx < length h0" using Cons.prems(2) by simp
  have len: "length h0 \<le> length h"
    using Cons.prems(3) by (metis length_take min.cobounded1 min.commute)
  have hj: "h ! (jobs ! idx) = h0 ! (jobs ! idx)"
    using j Cons.prems(3) by (metis nth_take)
  let ?x = "(h0 ! (jobs ! idx))\<lparr>score := Some (sims ! idx)\<rparr>"
  have h2: "set_score (h @ [h ! (jobs ! idx)]) (length h) (sims ! idx) = h @ [?x]"
    by (simp add: set_score_def hj)
  have p: "take (length h0) (h @ [?x]) = h0" using len Cons.prems(3) by simp
  have "rank_loop jobs sims rest (ranked @ [length h]) (h @ [?x]) =
     (Inr ((ranked @ [length h]) @ [length (h @ [?x]) ..< length (h @ [?x]) + length rest]),
     (h @ [?x]) @ map (\<lambda>idx. (h0 ! (jobs ! idx))\<lparr>score := Some (sims ! idx)\<rparr>) rest)"
    using Cons.prems p by (intro Cons.IH) auto
  moreover have "[length h ..< length h + length (idx # rest)] =
      length h # [Suc (length h) ..< Suc (length h) + length rest]"
    by (simp add: upt_rec)
  ultimately show ?case using i by (simp add: dict_copy_def h2 Let_def)
qed

lemma slice_to_length:
  "length (slice_to k xs) =
     (if 0 \<le> k then min (nat k) (length xs) else length xs - nat (- k))"
  by (auto simp: slice_to_def)

lemma slice_to_subset: "set (slice_to k xs) \<subseteq> set xs"
  by (auto simp: slice_to_def dest: in_set_takeD)

lemma slice_to_sorted: "sorted (map f xs) \<Longrightarrow> sorted (map f (slice_to k xs))"
  by (simp add: slice_to_def take_map [symmetric] sorted_wrt_take)

lemma rank_closed:
  fixes top_k :: int
  assumes ok: "argsort_ok (argsort L)"
    and fit: "tfidf_fit L (corpus resume_text jobs h) = Inr transform"
    and refs: "\<forall>r\<in>set jobs. r < length h"
  defines "sims \<equiv> map (\<lambda>j. dot L (transform (blank_fix (job_doc (h ! j))))
                               (transform (blank_fix resume_text))) jobs"
  defines "idxs \<equiv> slice_to top_k (argsort L (map uminus sims))"
  shows "rank_jobs_by_similarity L resume_text jobs top_k h =
    (Inr [length h ..< length h + length idxs],
     h @ map (\<lambda>idx. (h ! (jobs ! idx))\<lparr>score := Some (sims ! idx)\<rparr>) idxs)"
proof -
  have ls: "length sims = length jobs" by (simp add: sims_def)
  have "set idxs \<subseteq> set (argsort L (map uminus sims))"
    unfolding idxs_def by (rule slice_to_subset)
  also have "\<dots> = {0..<length jobs}" using ok ls by (simp add: argsort_ok_def)
  finally have b: "\<forall>i\<in>set idxs. i < length jobs \<and> i < length sims" using ls by auto
  have L: "rank_loop jobs sims idxs [] h =
    (Inr ([] @ [length h ..< length h + length idxs]),
     h @ map (\<lambda>idx. (h ! (jobs ! idx))\<lparr>score := Some (sims ! idx)\<rparr>) idxs)"
    using b refs by (rule rank_loop_closed) simp
  let ?X = "map transform (corpus resume_text jobs h)"
  have S: "map (\<lambda>v. dot L v (hd ?X)) (tl ?X) = sims"
    by (simp add: corpus_def sims_def comp_def)
  have "rank_jobs_by_similarity L resume_text jobs top_k h = rank_loop jobs sims idxs [] h"
    by (simp only: rank_jobs_by_similarity_def Let_def fit sum.case S idxs_def)
  with L show ?thesis by simp
qed

lemma ranked_records_closed:
  "ranked_records (Inr [length h ..< length h + length idxs], h @ map g idxs) = map g idxs"
  by (auto simp: ranked_records_def nth_append intro!: nth_equalityI)

lemma argsort_via_ok:
  assumes pre: "\<And>zs. set (pre zs) = set zs" "\<And>zs. distinct (pre zs) = distinct zs"
  shows "argsort_ok (argsort_via pre)"
  unfolding argsort_ok_def
proof (intro allI conjI)
  fix xs :: "real list"
  let ?zs = "zip xs [0..<length xs]"
  let ?s = "sort_key fst (pre ?zs)"
  have m: "map snd ?zs = [0..<length xs]" by simp
  have dm: "distinct (map snd ?zs)" by (simp only: m distinct_upt)
  have d: "distinct ?zs" using dm by (metis distinct_map)
  have i: "inj_on snd (set ?zs)" using dm by (metis distinct_map)
  have ss: "set ?s = set ?zs" by (simp add: pre)
  have ds: "distinct ?s" using d by (simp add: pre)
  show "distinct (argsort_via pre xs)"
    unfolding argsort_via_def using ds i ss by (simp only: distinct_map)
  have "set (argsort_via pre xs) = snd ` set ?zs"
    unfolding argsort_via_def by (simp only: set_map ss)
  also have "\<dots> = set (map snd ?zs)" by (simp only: set_map)
  also have "\<dots> = {0..<length xs}" by (simp only: m) simp
  finally show "set (argsort_via pre xs) = {0..<length xs}" .
  have "\<And>p. p \<in> set ?s \<Longrightarrow> xs ! snd p = fst p"
  proof -
    fix p assume "p \<in> set ?s"
    then have "p \<in> set ?zs" by (simp only: ss)
    then show "xs ! snd p = fst p" by (auto simp: set_zip)
  qed
  then have e: "map ((!) xs) (map snd ?s) = map fst ?s"
    unfolding map_map by (intro map_cong) auto
  show "sorted (map ((!) xs) (argsort_via pre xs))"
    unfolding argsort_via_def e by (rule sorted_sort_key)
qed

lemma rank_sorted_closed:
  fixes top_k :: int
  assumes ok: "argsort_ok (argsort L)"
    and fit: "tfidf_fit L (corpus resume_text jobs h) = Inr transform"
    and refs: "\<forall>r\<in>set jobs. r < length h"
  defines "sims \<equiv> map (\<lambda>j. dot L (transform (blank_fix (job_doc (h ! j))))
                               (transform (blank_fix resume_text))) jobs"
  defines "idxs \<equiv> slice_to top_k (argsort L (map uminus sims))"
  defines "res \<equiv> rank_jobs_by_similarity L resume_text jobs top_k h"
  shows "returned res"
    and "ranked_records res = map (\<lambda>idx. (h ! (jobs ! idx))\<lparr>score := Some (sims ! idx)\<rparr>) idxs"
    and "length idxs =
      (if 0 \<le> top_k then min (nat top_k) (length jobs) else length jobs - nat (- top_k))"
    and "sorted (rev (map (\<lambda>i. sims ! i) idxs))"
    and "\<forall>i\<in>set idxs. i < length jobs"
proof -
  let ?g = "\<lambda>idx. (h ! (jobs ! idx))\<lparr>score := Some (sims ! idx)\<rparr>"
  have R: "res = (Inr [length h ..< length h + length idxs], h @ map ?g idxs)"
    unfolding sims_def idxs_def res_def using ok fit refs by (rule rank_closed)
  show "returned res" by (simp add: R returned_def)
  show "ranked_records res = map ?g idxs"
    unfolding R by (rule ranked_records_closed)
  have la: "length (argsort L (map uminus sims)) = length jobs"
  proof -
    have "distinct (argsort L (map uminus sims))"
      and "set (argsort L (map uminus sims)) = {0..<length (map uminus sims)}"
      using ok by (auto simp: argsort_ok_def)
    then have "length (argsort L (map uminus sims)) = card {0..<length (map uminus sims)}"
      by (metis distinct_card)
    then show ?thesis by (simp add: sims_def)
  qed
  show "length idxs =
      (if 0 \<le> top_k then min (nat top_k) (length jobs) else length jobs - nat (- top_k))"
    unfolding idxs_def by (simp only: slice_to_length la)
  have inb: "\<forall>i\<in>set idxs. i < length sims"
  proof -
    have "set idxs \<subseteq> set (argsort L (map uminus sims))"
      unfolding idxs_def by (rule slice_to_subset)
    also have "\<dots> = {0..<length sims}" using ok by (simp add: argsort_ok_def)
    finally show ?thesis by auto
  qed
  then show "\<forall>i\<in>set idxs. i < length jobs" by (simp add: sims_def)
  have "sorted (map (\<lambda>i. map uminus sims ! i) (argsort L (map uminus sims)))"
    using ok by (simp add: argsort_ok_def)
  then have "sorted (map (\<lambda>i. map uminus sims ! i) idxs)"
    unfolding idxs_def by (rule slice_to_sorted)
  moreover have "map (\<lambda>i. map uminus sims ! i) idxs = map uminus (map (\<lambda>i. sims ! i) idxs)"
    using inb by simp
  ultimately have "sorted (map uminus (map (\<lambda>i. sims ! i) idxs))" by simp
  then show "sorted (rev (map (\<lambda>i. sims ! i) idxs))"
    by (simp add: sorted_wrt_rev sorted_wrt_map rev_map)
qed

lemma rank_heap_prefix:
  "take (length h) (snd (rank_jobs_by_similarity L resume_text jobs top_k h)) = h"
  by (simp add: rank_jobs_by_similarity_def Let_def rank_loop_heap_prefix split: sum.split)

lemma rank_fresh:
  "fresh_refs (length h) (rank_jobs_by_similarity L resume_text jobs top_k h)"
proof (cases "tfidf_fit L (corpus resume_text jobs h)")
  case (Inl e)
  then show ?thesis by (simp add: rank_jobs_by_similarity_def fresh_refs_def)
next
  case (Inr transform)
  have "fresh_refs (length h) (rank_loop jobs sims idxs [] h)" for sims idxs
    by (rule rank_loop_fresh) simp_all
  then show ?thesis by (simp add: rank_jobs_by_similarity_def Let_def Inr)
qed

lemmas toy_eval = rank_jobs_by_similarity_def toy_libs_def
  toy_heap_def corpus_def blank_fix_def strip_def isspace_def job_doc_def mk_job_def
  argsort_via_def slice_to_def dict_copy_def set_score_def Let_def ranked_records_def returned_def

lemma toy_argsort_ok: "argsort_ok (argsort toy_libs)"
  by (simp add: toy_libs_def argsort_via_ok)

lemma np_argsort_18: "np_argsort (replicate 18 (- 9)) = [0, 15, 14, 13, 12, 11, 10, 9, 8, 7, 6, 5, 4, 3, 2, 1, 16, 17]"
  by code_simp

lemma same_heap_sims:
  "map (\<lambda>v. dot np_libs v (hd (map length (corpus ''same text'' [0..<18] same_heap))))
       (tl (map length (corpus ''same text'' [0..<18] same_heap))) = replicate 18 9"
  by code_simp

lemma same_heap_ranked:
  "ranked_records (rank_jobs_by_similarity np_libs ''same text'' [0..<18] 18 same_heap)
     = map (\<lambda>idx. (same_heap ! idx)\<lparr>score := Some 9\<rparr>)
         [0, 15, 14, 13, 12, 11, 10, 9, 8, 7, 6, 5, 4, 3, 2, 1, 16, 17]"
proof -
  let ?idxs = "[0, 15, 14, 13, 12, 11, 10, 9, 8, 7, 6, 5, 4, 3, 2, 1, 16, 17] :: nat list"
  let ?g = "\<lambda>idx. (same_heap ! ([0..<18] ! idx))\<lparr>score := Some (replicate 18 (9 :: real) ! idx)\<rparr>"
  have fit: "tfidf_fit np_libs (corpus ''same text'' [0..<18] same_heap) = Inr length"
    by (simp add: np_libs_def)
  have arg: "argsort np_libs (map uminus (replicate 18 (9 :: real))) = ?idxs"
    by (simp add: np_libs_def np_argsort_18)
  have sl: "slice_to 18 ?idxs = ?idxs" by (simp add: slice_to_def)
  have loop: "rank_loop [0..<18] (replicate 18 9) ?idxs [] same_heap =
      (Inr ([] @ [length same_heap ..< length same_heap + length ?idxs]),
       same_heap @ map ?g ?idxs)"
    by (rule rank_loop_closed) (simp_all add: same_heap_def)
  have "rank_jobs_by_similarity np_libs ''same text'' [0..<18] 18 same_heap =
      (Inr [length same_heap ..< length same_heap + length ?idxs], same_heap @ map ?g ?idxs)"
    unfolding rank_jobs_by_similarity_def Let_def fit sum.case same_heap_sims arg sl loop
    by simp
  then have "ranked_records (rank_jobs_by_similarity np_libs ''same text'' [0..<18] 18 same_heap)
     = map ?g ?idxs"
    by (simp only: ranked_records_closed)
  then show ?thesis by (simp add: numeral_2_eq_2)
qed

section \<open>Facts about runs\<close>

lemma bnd_Inr_D:
  "bnd m f w = (Inr y, w2, t) \<Longrightarrow>
   \<exists>x w1 t1 t2. m w = (Inr x, w1, t1) \<and> f x w1 = (Inr y, w2, t2) \<and> t = t1 @ t2"
  by (auto simp: bnd_def split: prod.splits sum.splits)

lemma returned_iff: "returned res = (\<exists>x w1 t. res = (Inr x, w1, t))"
  by (cases res; cases "fst res") (auto simp: returned_def)

lemma returned_ret: "returned (ret x w)"
  by (simp add: returned_def ret_def)

lemma returned_sleep: "returned (sleep d w)"
  by (simp add: returned_def sleep_def)

lemma returned_lift: "returned (lift p w)"
  by (simp add: returned_def lift_def split: prod.split)

lemma returned_try_except:
  assumes "\<And>e w1. returned (h e w1)"
  shows "returned (try_except m h w)"
proof -
  obtain r w1 t where m: "m w = (r, w1, t)" by (rule prod_cases3)
  show ?thesis
  proof (cases r)
    case (Inl e)
    obtain r2 w2 t2 where h: "h e w1 = (r2, w2, t2)" by (rule prod_cases3)
    from assms [of e w1] h have "\<exists>x. r2 = Inr x" by (cases r2) (simp_all add: returned_def)
    with m Inl h show ?thesis by (auto simp: returned_def try_except_def)
  next
    case (Inr x)
    with m show ?thesis by (simp add: returned_def try_except_def)
  qed
qed

lemma returned_bnd:
  assumes "returned (m w)" and "\<And>x w1. returned (f x w1)"
  shows "returned (bnd m f w)"
proof -
  obtain r w1 t where m: "m w = (r, w1, t)" by (rule prod_cases3)
  with assms(1) obtain x where r: "r = Inr x" by (cases r) (simp_all add: returned_def)
  obtain r2 w2 t2 where f: "f x w1 = (r2, w2, t2)" by (rule prod_cases3)
  from assms(2) [of x w1] f have "\<exists>y. r2 = Inr y" by (cases r2) (simp_all add: returned_def)
  with m r f show ?thesis by (auto simp: returned_def bnd_def)
qed

lemma returned_call: "returned (f w) \<Longrightarrow> returned (call ev f w)"
  by (auto simp: returned_def call_def split: prod.split sum.split)

lemma call_Inl: "\<not> returned (f w) \<Longrightarrow> \<exists>e w1. call ev f w = (Inl e, w1, [ev])"
  by (cases "f w") (auto simp: call_def returned_def split: sum.splits)

lemma text_of_Inr:
  "fst (el_text d n w) = Inr x \<Longrightarrow> \<exists>w1. text_of d n w = (Inr x, w1, [Text n])"
  by (cases "el_text d n w") (simp add: text_of_def call_def)

lemma find_elements_Inr:
  "fst (drv_find_elements d b s w) = Inr x \<Longrightarrow>
   \<exists>w1. find_elements d b s w = (Inr x, w1, [FindElements b s])"
  by (cases "drv_find_elements d b s w") (simp add: find_elements_def call_def)

section \<open>Facts about the link harvester\<close>










lemma call_Inr: "fst (f w) = Inr x \<Longrightarrow> \<exists>w1. call ev f w = (Inr x, w1, [ev])"
  by (cases "f w") (simp add: call_def)

lemma call_returned: "returned (f w) \<Longrightarrow> \<exists>x w1. call ev f w = (Inr x, w1, [ev])"
  by (cases "f w") (auto simp: call_def returned_def split: sum.splits)















section \<open>Facts about the detail extractor\<close>

lemma returned_read_title: "returned (read_title d w)"
  unfolding read_title_def by (intro returned_try_except returned_ret)

lemma returned_read_company: "returned (read_company d w)"
  unfolding read_company_def by (intro returned_try_except returned_ret)

lemma returned_job_details_fallback: "returned (job_details_fallback d texts w)"
  unfolding job_details_fallback_def by (auto intro!: returned_try_except returned_ret)

lemma fetch_returned:
  assumes "returned (drv_get d job_url w)"
  shows "returned (fetch_job_description d job_url timeout w)"
proof -
  have "returned (get d job_url w)" unfolding get_def using assms by (rule returned_call)
  then show ?thesis
    unfolding fetch_job_description_def
    by (intro returned_bnd returned_try_except returned_ret returned_sleep returned_read_title
        returned_read_company returned_lift returned_job_details_fallback)
qed

lemma fetch_stages:
  assumes "fetch_job_description d job_url timeout w = (Inr j, w', t)"
  shows "\<exists>w3 ti w4 tt c w5 tc tx w6 td tx' w7 tf.
      read_title d w3 = (Inr ti, w4, tt) \<and> read_company d w4 = (Inr c, w5, tc)
      \<and> desc_loop d desc_selectors [] w5 = (tx, w6, td)
      \<and> job_details_fallback d tx w6 = (Inr tx', w7, tf)
      \<and> j = \<lparr> url = job_url, title = normalize ti, company = normalize c,
               description = normalize (strip (join_nl tx')), score = None \<rparr>"
proof -
  from bnd_Inr_D [OF assms [unfolded fetch_job_description_def]] obtain w1 t1 where
    1: "bnd (try_except (bnd (wait_presence d timeout TAG_NAME ''body'') (\<lambda>_. ret ()))
            (\<lambda>_. ret ())) (\<lambda>_.
     bnd (sleep d) (\<lambda>_.
     bnd (read_title d) (\<lambda>title.
     bnd (read_company d) (\<lambda>company.
     bnd (lift (desc_loop d desc_selectors [])) (\<lambda>texts.
     bnd (job_details_fallback d texts) (\<lambda>texts.
     ret \<lparr> url = job_url, title = normalize title, company = normalize company,
           description = normalize (strip (join_nl texts)), score = None \<rparr>)))))) w1
      = (Inr j, w', t1)" by blast
  from bnd_Inr_D [OF 1] obtain w2 t2 where
    2: "bnd (sleep d) (\<lambda>_.
     bnd (read_title d) (\<lambda>title.
     bnd (read_company d) (\<lambda>company.
     bnd (lift (desc_loop d desc_selectors [])) (\<lambda>texts.
     bnd (job_details_fallback d texts) (\<lambda>texts.
     ret \<lparr> url = job_url, title = normalize title, company = normalize company,
           description = normalize (strip (join_nl texts)), score = None \<rparr>))))) w2
      = (Inr j, w', t2)" by blast
  from bnd_Inr_D [OF 2] obtain w3 t3 where
    3: "bnd (read_title d) (\<lambda>title.
     bnd (read_company d) (\<lambda>company.
     bnd (lift (desc_loop d desc_selectors [])) (\<lambda>texts.
     bnd (job_details_fallback d texts) (\<lambda>texts.
     ret \<lparr> url = job_url, title = normalize title, company = normalize company,
           description = normalize (strip (join_nl texts)), score = None \<rparr>)))) w3
      = (Inr j, w', t3)" by blast
  from bnd_Inr_D [OF 3] obtain ti w4 tt t4 where
    ti: "read_title d w3 = (Inr ti, w4, tt)" and
    4: "bnd (read_company d) (\<lambda>company.
     bnd (lift (desc_loop d desc_selectors [])) (\<lambda>texts.
     bnd (job_details_fallback d texts) (\<lambda>texts.
     ret \<lparr> url = job_url, title = normalize ti, company = normalize company,
           description = normalize (strip (join_nl texts)), score = None \<rparr>))) w4
      = (Inr j, w', t4)" by blast
  from bnd_Inr_D [OF 4] obtain c w5 tc t5 where
    c: "read_company d w4 = (Inr c, w5, tc)" and
    5: "bnd (lift (desc_loop d desc_selectors [])) (\<lambda>texts.
     bnd (job_details_fallback d texts) (\<lambda>texts.
     ret \<lparr> url = job_url, title = normalize ti, company = normalize c,
           description = normalize (strip (join_nl texts)), score = None \<rparr>)) w5
      = (Inr j, w', t5)" by blast
  from bnd_Inr_D [OF 5] obtain tx w6 td t6 where
    l: "lift (desc_loop d desc_selectors []) w5 = (Inr tx, w6, td)" and
    6: "bnd (job_details_fallback d tx) (\<lambda>texts.
     ret \<lparr> url = job_url, title = normalize ti, company = normalize c,
           description = normalize (strip (join_nl texts)), score = None \<rparr>) w6
      = (Inr j, w', t6)" by blast
  from bnd_Inr_D [OF 6] obtain tx' w7 tf t7 where
    f: "job_details_fallback d tx w6 = (Inr tx', w7, tf)" and
    7: "ret \<lparr> url = job_url, title = normalize ti, company = normalize c,
           description = normalize (strip (join_nl tx')), score = None \<rparr> w7
      = (Inr j, w', t7)" by blast
  from l have tx: "desc_loop d desc_selectors [] w5 = (tx, w6, td)"
    by (simp add: lift_def split: prod.splits)
  from 7 have j: "j = \<lparr> url = job_url, title = normalize ti, company = normalize c,
           description = normalize (strip (join_nl tx')), score = None \<rparr>"
    by (simp add: ret_def)
  from ti c tx f j show ?thesis by blast
qed

lemma try_find_fails:
  assumes "\<not> returned (drv_find_element d XPATH xp w)"
  shows "\<exists>e w1. try_except (bnd (find_element d XPATH xp) f) h w
           = after [FindElement XPATH xp] (h e w1)"
proof -
  from call_Inl [of "drv_find_element d XPATH xp" w "FindElement XPATH xp", OF assms]
  obtain e w1 where
    "find_element d XPATH xp w = (Inl e, w1, [FindElement XPATH xp])"
    unfolding find_element_def by blast
  then have "try_except (bnd (find_element d XPATH xp) f) h w
           = after [FindElement XPATH xp] (h e w1)"
    by (simp add: try_except_def bnd_def after_def)
  then show ?thesis by blast
qed

lemma read_title_empty:
  fixes d :: "'w webdriver"
  assumes "\<forall>w. \<not> returned (drv_find_element d XPATH title_xpath w)"
    and "read_title d w = (Inr ti, w1, t)"
  shows "ti = []"
proof -
  from assms(1) have "\<not> returned (drv_find_element d XPATH title_xpath w)" by simp
  from try_find_fails [OF this] obtain e wa where
    "read_title d w = after [FindElement XPATH title_xpath] (ret [] wa)"
    unfolding read_title_def by blast
  with assms(2) show ?thesis by (simp add: after_def ret_def)
qed

lemma read_company_empty:
  fixes d :: "'w webdriver"
  assumes "\<forall>w. \<not> returned (drv_find_element d XPATH company_xpath w)"
    and "\<forall>w. \<not> returned (drv_find_element d XPATH company_fallback_xpath w)"
    and "read_company d w = (Inr c, w1, t)"
  shows "c = []"
proof -
  from assms(1) have a: "\<not> returned (drv_find_element d XPATH company_xpath w)" by simp
  have b: "\<not> returned (drv_find_element d XPATH company_fallback_xpath w')" for w'
    using assms(2) by simp
  from try_find_fails [OF a] obtain e wa where
    1: "read_company d w = after [FindElement XPATH company_xpath]
          (try_except (bnd (find_element d XPATH company_fallback_xpath)
              (\<lambda>el. bnd (text_of d el) (\<lambda>t. ret (strip t)))) (\<lambda>_. ret []) wa)"
    unfolding read_company_def by blast
  from try_find_fails [OF b] obtain e' wb where
    2: "try_except (bnd (find_element d XPATH company_fallback_xpath)
              (\<lambda>el. bnd (text_of d el) (\<lambda>t. ret (strip t)))) (\<lambda>_. ret []) wa =
          after [FindElement XPATH company_fallback_xpath] (ret [] wb)"
    by blast
  from assms(3) show ?thesis unfolding 1 2 by (simp add: after_def ret_def)
qed

lemma desc_loop_nothing:
  fixes d :: "'w webdriver"
  assumes "\<forall>w sel ns. fst (drv_find_elements d XPATH sel w) = Inr ns \<longrightarrow> ns = []"
  shows "\<exists>w1 t. desc_loop d sels [] w = ([], w1, t)"
proof (induction sels arbitrary: w)
  case Nil
  then show ?case by simp
next
  case (Cons sel sels)
  obtain r w1 where f: "drv_find_elements d XPATH sel w = (r, w1)" by (cases "drv_find_elements d XPATH sel w")
  from Cons [of w1] obtain w2 t2 where IH: "desc_loop d sels [] w1 = ([], w2, t2)" by blast
  show ?case
  proof (cases r)
    case (Inl e)
    with f IH show ?thesis by (simp add: find_elements_def call_def after_def)
  next
    case (Inr ns)
    with assms f have "ns = []" by (metis fst_conv)
    with f Inr IH show ?thesis by (simp add: find_elements_def call_def after_def)
  qed
qed

lemma fallback_nothing:
  fixes d :: "'w webdriver"
  assumes "\<forall>w. \<not> returned (drv_find_element d XPATH job_details_xpath w)"
    and "job_details_fallback d [] w = (Inr tx, w1, t)"
  shows "tx = []"
proof -
  from assms(1) have "\<not> returned (drv_find_element d XPATH job_details_xpath w)" by simp
  from try_find_fails [OF this] obtain e wa where
    "job_details_fallback d [] w = after [FindElement XPATH job_details_xpath] (ret [] wa)"
    unfolding job_details_fallback_def by auto
  with assms(2) show ?thesis by (simp add: after_def ret_def)
qed

lemma collect_texts_static:
  fixes d :: "'w webdriver"
  assumes "\<forall>w n. fst (el_text d n w) = Inr (txt n)"
  shows "\<exists>w1 t. collect_texts d ns texts w =
     ((texts @ filter (\<lambda>t. 50 < length t) (map (\<lambda>n. strip (txt n)) ns), False), w1, t)"
proof (induction ns arbitrary: texts w)
  case Nil
  then show ?case by simp
next
  case (Cons n ns)
  from assms have "fst (el_text d n w) = Inr (txt n)" by simp
  from text_of_Inr [OF this] obtain w1 where
    t: "text_of d n w = (Inr (txt n), w1, [Text n])" by blast
  let ?texts = "if 50 < length (strip (txt n)) then texts @ [strip (txt n)] else texts"
  from Cons [of ?texts w1] obtain w2 t2 where
    "collect_texts d ns ?texts w1 =
       ((?texts @ filter (\<lambda>t. 50 < length t) (map (\<lambda>n. strip (txt n)) ns), False), w2, t2)"
    by blast
  then show ?case by (simp add: t after_def Let_def)
qed

lemma desc_loop_static:
  fixes d :: "'w webdriver"
  assumes "static_job_page d nodes txt jd"
  shows "\<exists>w1 t. desc_loop d sels [] w = (first_qualifying nodes txt sels, w1, t)"
proof (induction sels arbitrary: w)
  case Nil
  then show ?case by simp
next
  case (Cons sel sels)
  from assms have "fst (drv_find_elements d XPATH sel w) = Inr (nodes sel)"
    by (simp add: static_job_page_def)
  from find_elements_Inr [OF this] obtain w1 where
    f: "find_elements d XPATH sel w = (Inr (nodes sel), w1, [FindElements XPATH sel])" by blast
  from assms have "\<forall>w n. fst (el_text d n w) = Inr (txt n)"
    by (simp add: static_job_page_def)
  from collect_texts_static [OF this, of "nodes sel" "[]" w1] obtain w2 t2 where
    c: "collect_texts d (nodes sel) [] w1 = ((qualifying nodes txt sel, False), w2, t2)"
    by (auto simp: qualifying_def)
  from Cons [of w2] obtain w3 t3 where
    IH: "desc_loop d sels [] w2 = (first_qualifying nodes txt sels, w3, t3)" by blast
  show ?case by (simp add: f c IH after_def)
qed

lemma fallback_static:
  fixes d :: "'w webdriver"
  assumes "static_job_page d nodes txt jd"
  shows "\<exists>w1 t. job_details_fallback d texts w =
     (Inr (if texts \<noteq> [] then texts else (case jd of Inl e \<Rightarrow> [] | Inr big \<Rightarrow> [txt big])), w1, t)"
proof (cases "texts = []")
  case False
  then show ?thesis by (simp add: job_details_fallback_def ret_def)
next
  case True
  obtain r wa where f: "drv_find_element d XPATH job_details_xpath w = (r, wa)"
    by (cases "drv_find_element d XPATH job_details_xpath w")
  with assms have r: "r = jd" by (auto simp: static_job_page_def dest: spec [of _ w])
  show ?thesis
  proof (cases jd)
    case (Inl e)
    with f r True show ?thesis
      by (simp add: job_details_fallback_def try_except_def bnd_def find_element_def call_def ret_def)
  next
    case (Inr big)
    from assms have "fst (el_text d big wa) = Inr (txt big)" by (simp add: static_job_page_def)
    from text_of_Inr [OF this] obtain wb where
      tb: "text_of d big wa = (Inr (txt big), wb, [Text big])" by blast
    with f r True Inr show ?thesis
      by (simp add: job_details_fallback_def try_except_def bnd_def find_element_def call_def
          ret_def tb)
  qed
qed

lemma fetch_description_static:
  fixes d :: "'w webdriver"
  assumes st: "static_job_page d nodes txt jd"
    and f: "fetch_job_description d job_url timeout w = (Inr j, w', t)"
  shows "description j = normalize (strip (description_by_first_qualifying desc_selectors nodes txt jd))"
proof -
  from fetch_stages [OF f] obtain w5 tx w6 td tx' w7 tf where
    l: "desc_loop d desc_selectors [] w5 = (tx, w6, td)"
    and fb: "job_details_fallback d tx w6 = (Inr tx', w7, tf)"
    and j: "description j = normalize (strip (join_nl tx'))" by auto
  from desc_loop_static [OF st, of desc_selectors w5] l
  have tx: "tx = first_qualifying nodes txt desc_selectors" by auto
  from fallback_static [OF st, of tx w6] fb
  have "tx' = (if tx \<noteq> [] then tx else (case jd of Inl e \<Rightarrow> [] | Inr big \<Rightarrow> [txt big]))"
    by auto
  with tx j show ?thesis by (simp add: description_by_first_qualifying_def Let_def)
qed

lemmas sim_eval = fixed_page_def wizard_def sim_driver_def found_def first_found_def blank_page_def
  or_empty_def get_def execute_script_def find_elements_def find_element_def wait_presence_def
  wait_clickable_def text_of_def get_attribute_def is_displayed_def is_enabled_def click_def
  clear_def send_keys_def sleep_def print_def call_def ret_def bnd_def try_except_def after_def
  lift_def Let_def

lemma label_first_page_static:
  "static_job_page (fixed_page label_first_page) (found label_first_page XPATH)
     (\<lambda>n. or_empty (map_of (pg_text label_first_page) n)) (Inl NoSuchElementException)"
  by (simp add: static_job_page_def sim_eval label_first_page_def job_details_xpath_def)

lemma label_first_page_qualifying:
  "first_qualifying (found label_first_page XPATH)
     (\<lambda>n. or_empty (map_of (pg_text label_first_page) n)) desc_selectors = [long_text]"
  by (simp add: qualifying_def desc_selectors_def label_first_page_def sim_eval long_text_def
      strip_def isspace_def)

lemma normalize_long_text: "normalize (strip long_text) = long_text"
  by (simp add: normalize_def strip_def isspace_def long_text_def)

section \<open>Facts about the application flow driver\<close>

lemma open_job_page_events:
  assumes "open_job_page d job_url w = (Inr u, w1, t1)"
  shows "t1 = [Get job_url, Sleep, ExecuteScript scroll_to_js, Sleep]"
proof -
  obtain r1 wa where g: "drv_get d job_url w = (r1, wa)" by (cases "drv_get d job_url w")
  obtain r2 wb where e: "drv_execute_script d scroll_to_js (time_sleep d wa) = (r2, wb)"
    by (cases "drv_execute_script d scroll_to_js (time_sleep d wa)")
  from assms g e show ?thesis
    by (cases r1; cases r2)
       (simp_all add: open_job_page_def bnd_def get_def call_def sleep_def execute_script_def)
qed

lemma find_easy_btn_none:
  assumes "\<not> returned (drv_wait_clickable d 4 XPATH easy_apply_xpath w)"
    and "\<not> returned (drv_find_element d XPATH easy_apply_loose_xpath
            (snd (drv_wait_clickable d 4 XPATH easy_apply_xpath w)))"
  shows "\<exists>w2. find_easy_btn d w = (Inr None, w2,
     [WaitClickable 4 XPATH easy_apply_xpath, FindElement XPATH easy_apply_loose_xpath])"
proof -
  obtain r1 wa where a: "drv_wait_clickable d 4 XPATH easy_apply_xpath w = (r1, wa)"
    by (cases "drv_wait_clickable d 4 XPATH easy_apply_xpath w")
  obtain r2 wb where b: "drv_find_element d XPATH easy_apply_loose_xpath wa = (r2, wb)"
    by (cases "drv_find_element d XPATH easy_apply_loose_xpath wa")
  from assms a b show ?thesis
    by (cases r1; cases r2)
       (simp_all add: find_easy_btn_def try_except_def bnd_def wait_clickable_def
          find_element_def call_def ret_def returned_def)
qed

lemma find_easy_btn_events:
  assumes "find_easy_btn d w = (r, w2, t2)"
  shows "t2 = [WaitClickable 4 XPATH easy_apply_xpath]
       \<or> t2 = [WaitClickable 4 XPATH easy_apply_xpath, FindElement XPATH easy_apply_loose_xpath]"
proof -
  obtain r1 wa where a: "drv_wait_clickable d 4 XPATH easy_apply_xpath w = (r1, wa)"
    by (cases "drv_wait_clickable d 4 XPATH easy_apply_xpath w")
  obtain r2 wb where b: "drv_find_element d XPATH easy_apply_loose_xpath wa = (r2, wb)"
    by (cases "drv_find_element d XPATH easy_apply_loose_xpath wa")
  from assms a b show ?thesis
    by (cases r1; cases r2)
       (auto simp add: find_easy_btn_def try_except_def bnd_def wait_clickable_def
          find_element_def call_def ret_def)
qed

lemma quiet_not_reached: "list_all (\<lambda>ev. \<not> is_final_msg ev) t \<Longrightarrow> \<not> reached_final_step t"
  by (auto simp: reached_final_step_def list_all_iff)

lemma quiet_ret: "quiet (ret x w)"
  by (simp add: quiet_def events_def ret_def)

lemma quiet_sleep: "quiet (sleep d w)"
  by (simp add: quiet_def events_def sleep_def)

lemma quiet_call: "\<not> is_final_msg ev \<Longrightarrow> quiet (call ev f w)"
  by (simp add: quiet_def events_def call_def split: prod.split)

lemma quiet_print: "\<not> is_final_msg (Print m) \<Longrightarrow> quiet (print m w)"
  by (simp add: quiet_def events_def print_def)

lemma quiet_bnd:
  assumes "quiet (m w)" and "\<And>x w1. quiet (f x w1)"
  shows "quiet (bnd m f w)"
proof -
  obtain r w1 t where m: "m w = (r, w1, t)" by (rule prod_cases3)
  show ?thesis
  proof (cases r)
    case (Inl e)
    with m assms(1) show ?thesis by (simp add: quiet_def events_def bnd_def)
  next
    case (Inr x)
    obtain r2 w2 t2 where f: "f x w1 = (r2, w2, t2)" by (rule prod_cases3)
    from assms(2) [of x w1] f have "list_all (\<lambda>ev. \<not> is_final_msg ev) t2"
      by (simp add: quiet_def events_def)
    with m Inr f assms(1) show ?thesis by (simp add: quiet_def events_def bnd_def)
  qed
qed

lemma quiet_try_except:
  assumes "quiet (m w)" and "\<And>e w1. quiet (h e w1)"
  shows "quiet (try_except m h w)"
proof -
  obtain r w1 t where m: "m w = (r, w1, t)" by (rule prod_cases3)
  show ?thesis
  proof (cases r)
    case (Inr x)
    with m assms(1) show ?thesis by (simp add: quiet_def events_def try_except_def)
  next
    case (Inl e)
    obtain r2 w2 t2 where h: "h e w1 = (r2, w2, t2)" by (rule prod_cases3)
    from assms(2) [of e w1] h have "list_all (\<lambda>ev. \<not> is_final_msg ev) t2"
      by (simp add: quiet_def events_def)
    with m Inl h assms(1) show ?thesis by (simp add: quiet_def events_def try_except_def)
  qed
qed

lemma quiet_ops:
  "quiet (get d u w)" "quiet (execute_script d s w)" "quiet (find_elements d b s w)"
  "quiet (find_element d b s w)" "quiet (wait_presence d n b s w)"
  "quiet (wait_clickable d n b s w)" "quiet (text_of d e w)" "quiet (get_attribute d e a w)"
  "quiet (is_displayed d e w)" "quiet (is_enabled d e w)" "quiet (click d e w)"
  "quiet (clear d e w)" "quiet (send_keys d e s w)"
  by (simp_all add: get_def execute_script_def find_elements_def find_element_def
      wait_presence_def wait_clickable_def text_of_def get_attribute_def is_displayed_def
      is_enabled_def click_def clear_def send_keys_def quiet_call)

lemmas quiet_intros = quiet_bnd quiet_try_except quiet_ret quiet_sleep quiet_ops quiet_print

lemma quiet_safe_send_keys: "quiet (safe_send_keys d e s w)"
  unfolding safe_send_keys_def by (intro quiet_intros)

lemma quiet_open_job_page: "quiet (open_job_page d u w)"
  unfolding open_job_page_def by (intro quiet_intros)

lemma quiet_find_easy_btn: "quiet (find_easy_btn d w)"
  unfolding find_easy_btn_def by (intro quiet_intros)

lemma quiet_upload_loop: "quiet (upload_loop d p fis w)"
proof (induction fis arbitrary: w)
  case Nil
  then show ?case by (simp add: quiet_ret)
next
  case (Cons fi fis)
  show ?case
    by (simp only: upload_loop.simps) (intro quiet_intros, auto intro!: quiet_intros Cons)
qed

lemma quiet_upload_resume: "quiet (upload_resume d p w)"
  unfolding upload_resume_def
  by (auto split: option.split intro!: quiet_intros quiet_upload_loop)

lemma quiet_keyword_loop: "quiet (keyword_loop d c tas w)"
proof (induction tas arbitrary: w)
  case Nil
  then show ?case by (simp add: quiet_ret)
next
  case (Cons ta tas)
  show ?case
    by (simp only: keyword_loop.simps)
       (intro quiet_intros, auto intro!: quiet_intros quiet_safe_send_keys Cons)
qed

lemma quiet_visible_loop: "quiet (visible_loop d c tas w)"
proof (induction tas arbitrary: w)
  case Nil
  then show ?case by (simp add: quiet_ret)
next
  case (Cons ta tas)
  show ?case
    by (simp only: visible_loop.simps)
       (intro quiet_intros, auto intro!: quiet_intros quiet_safe_send_keys Cons)
qed

lemma quiet_contenteditable_loop: "quiet (contenteditable_loop d c dvs w)"
proof (induction dvs arbitrary: w)
  case Nil
  then show ?case by (simp add: quiet_ret)
next
  case (Cons dv dvs)
  show ?case
    by (simp only: contenteditable_loop.simps)
       (intro quiet_intros, auto intro!: quiet_intros Cons)
qed

lemma quiet_phone_loop: "quiet (phone_loop d p ips w)"
proof (induction ips arbitrary: w)
  case Nil
  then show ?case by (simp add: quiet_ret)
next
  case (Cons ip ips)
  show ?case
    by (simp only: phone_loop.simps)
       (intro quiet_intros, auto intro!: quiet_intros quiet_safe_send_keys Cons)
qed

lemma quiet_fill_textareas: "quiet (fill_textareas d c w)"
  unfolding fill_textareas_def
  by (intro quiet_intros quiet_keyword_loop)
     (auto intro!: quiet_intros quiet_visible_loop)

lemma quiet_fill_contenteditable: "quiet (fill_contenteditable d c w)"
  unfolding fill_contenteditable_def
  by (auto intro!: quiet_intros quiet_contenteditable_loop)

lemma quiet_fill_cover: "quiet (fill_cover d c w)"
  unfolding fill_cover_def
  by (auto split: option.split intro!: quiet_intros quiet_fill_textareas quiet_fill_contenteditable)

lemma quiet_fill_phone: "quiet (fill_phone d p w)"
  unfolding fill_phone_def
  by (auto split: option.split intro!: quiet_intros quiet_phone_loop)

lemma quiet_fill_fields: "quiet (fill_fields d r c p w)"
  unfolding fill_fields_def
  by (intro quiet_intros quiet_upload_resume quiet_fill_cover quiet_fill_phone)

lemma quiet_next_loop: "quiet (next_loop d xps w)"
proof (induction xps arbitrary: w)
  case Nil
  then show ?case by (simp add: quiet_ret)
next
  case (Cons xp xps)
  show ?case
    by (simp only: next_loop.simps) (intro quiet_intros, auto intro!: quiet_intros Cons)
qed

lemma quiet_close_modal: "quiet (close_modal d w)"
  unfolding close_modal_def by (intro quiet_intros)

lemma ends_with_pause_prepend:
  "list_all (\<lambda>ev. \<not> is_final_msg ev) t1 \<Longrightarrow> ends_with_pause t2 \<Longrightarrow> ends_with_pause (t1 @ t2)"
proof -
  assume q: "list_all (\<lambda>ev. \<not> is_final_msg ev) t1" and e: "ends_with_pause t2"
  from e obtain pre b tx where t2: "t2 = pre @ [FindElement XPATH submit_xpath, Text b,
       Print (ReachedFinalStep tx), Print PausingForManualReview, Sleep]"
    and p: "list_all (\<lambda>ev. \<not> is_final_msg ev) pre"
    unfolding ends_with_pause_def by blast
  from t2 have "t1 @ t2 = (t1 @ pre) @ [FindElement XPATH submit_xpath, Text b,
       Print (ReachedFinalStep tx), Print PausingForManualReview, Sleep]" by simp
  moreover from q p have "list_all (\<lambda>ev. \<not> is_final_msg ev) (t1 @ pre)" by simp
  ultimately show ?thesis unfolding ends_with_pause_def by blast
qed

lemma try_submit_manual:
  "(\<exists>wa b txt. try_submit d False w = (Inr (Some True), wa,
        [FindElement XPATH submit_xpath, Text b, Print (ReachedFinalStep txt),
         Print PausingForManualReview, Sleep]))
   \<or> (\<exists>wa t. try_submit d False w = (Inr None, wa, t) \<and> list_all (\<lambda>ev. \<not> is_final_msg ev) t)"
proof -
  obtain r1 wa where f: "drv_find_element d XPATH submit_xpath w = (r1, wa)"
    by (cases "drv_find_element d XPATH submit_xpath w")
  show ?thesis
  proof (cases r1)
    case (Inl e)
    with f show ?thesis
      by (simp add: try_submit_def try_except_def bnd_def find_element_def call_def ret_def)
  next
    case (Inr b)
    obtain r2 wb where t: "el_text d b wa = (r2, wb)" by (cases "el_text d b wa")
    show ?thesis
    proof (cases r2)
      case (Inl e)
      with f Inr t show ?thesis
        by (simp add: try_submit_def try_except_def bnd_def find_element_def text_of_def
            call_def ret_def)
    next
      case (Inr s)
      with f \<open>r1 = Inr b\<close> t show ?thesis
        by (simp add: try_submit_def try_except_def bnd_def find_element_def text_of_def
            call_def ret_def print_def sleep_def Let_def)
    qed
  qed
qed

lemma step_loop_manual:
  "(\<exists>wa t. step_loop n d False w = (Inr (Some True), wa, t) \<and> ends_with_pause t)
   \<or> quiet (step_loop n d False w)"
proof (induction n arbitrary: w)
  case 0
  then show ?case by (simp add: quiet_ret)
next
  case (Suc n)
  let ?w1 = "time_sleep d w"
  have s: "sleep d w = (Inr (), ?w1, [Sleep])" by (simp add: sleep_def)
  from try_submit_manual [of d ?w1] show ?case
  proof (elim disjE exE conjE)
    fix wa b tx
    assume a: "try_submit d False ?w1 = (Inr (Some True), wa,
        [FindElement XPATH submit_xpath, Text b, Print (ReachedFinalStep tx),
         Print PausingForManualReview, Sleep])"
    have "step_loop (Suc n) d False w = (Inr (Some True), wa,
        [Sleep] @ [FindElement XPATH submit_xpath, Text b, Print (ReachedFinalStep tx),
         Print PausingForManualReview, Sleep])"
      by (simp add: bnd_def s a ret_def)
    moreover have "ends_with_pause ([Sleep] @ [FindElement XPATH submit_xpath, Text b,
         Print (ReachedFinalStep tx), Print PausingForManualReview, Sleep])"
      unfolding ends_with_pause_def by (intro exI conjI) (rule refl, simp)
    ultimately show ?thesis by blast
  next
    fix wa t
    assume a: "try_submit d False ?w1 = (Inr None, wa, t)"
      and q: "list_all (\<lambda>ev. \<not> is_final_msg ev) t"
    obtain r3 wb t3 where nx: "next_loop d [next_xpath, continue_xpath] wa = (r3, wb, t3)"
      by (rule prod_cases3)
    from quiet_next_loop [of d "[next_xpath, continue_xpath]" wa] nx
    have q3: "list_all (\<lambda>ev. \<not> is_final_msg ev) t3" by (simp add: quiet_def events_def)
    show ?thesis
    proof (cases "r3 = Inr True")
      case False
      then have "\<exists>r. step_loop (Suc n) d False w = (r, wb, [Sleep] @ t @ t3)"
        using a s nx by (cases r3) (auto simp add: bnd_def ret_def)
      with q q3 have "quiet (step_loop (Suc n) d False w)"
        by (auto simp: quiet_def events_def)
      then show ?thesis by blast
    next
      case True
      obtain r4 wc t4 where rest: "step_loop n d False wb = (r4, wc, t4)" by (rule prod_cases3)
      with True a s nx
      have eq: "step_loop (Suc n) d False w = (r4, wc, [Sleep] @ t @ t3 @ t4)"
        by (simp add: bnd_def)
      from Suc [of wb] show ?thesis
      proof
        assume "\<exists>wa t. step_loop n d False wb = (Inr (Some True), wa, t) \<and> ends_with_pause t"
        with rest have r4: "r4 = Inr (Some True)" and e4: "ends_with_pause t4" by auto
        from q q3 have "list_all (\<lambda>ev. \<not> is_final_msg ev) ([Sleep] @ t @ t3)" by simp
        from ends_with_pause_prepend [OF this e4] eq r4 show ?thesis by simp
      next
        assume "quiet (step_loop n d False wb)"
        with rest q q3 eq have "quiet (step_loop (Suc n) d False w)"
          by (simp add: quiet_def events_def)
        then show ?thesis by blast
      qed
    qed
  qed
qed

lemma run_steps_manual: "pauses (run_steps d False w) \<or> quiet (run_steps d False w)"
proof -
  from step_loop_manual [of max_steps d w] show ?thesis
  proof (elim disjE exE conjE)
    fix wa t
    assume "step_loop max_steps d False w = (Inr (Some True), wa, t)" and "ends_with_pause t"
    then have "pauses (run_steps d False w)"
      by (simp add: pauses_def run_steps_def bnd_def ret_def events_def)
    then show ?thesis ..
  next
    assume q: "quiet (step_loop max_steps d False w)"
    have "quiet (run_steps d False w)"
      unfolding run_steps_def
      using q by (intro quiet_bnd) (auto split: option.split intro!: quiet_intros quiet_close_modal)
    then show ?thesis ..
  qed
qed

lemma pauses_or_quiet_bnd:
  assumes "quiet (m w)" and "\<And>x w1. pauses (f x w1) \<or> quiet (f x w1)"
  shows "pauses (bnd m f w) \<or> quiet (bnd m f w)"
proof -
  obtain r w1 t where m: "m w = (r, w1, t)" by (rule prod_cases3)
  with assms(1) have qt: "list_all (\<lambda>ev. \<not> is_final_msg ev) t" by (simp add: quiet_def events_def)
  show ?thesis
  proof (cases r)
    case (Inl e)
    with m qt have "quiet (bnd m f w)" by (simp add: quiet_def events_def bnd_def)
    then show ?thesis ..
  next
    case (Inr x)
    obtain r2 w2 t2 where f: "f x w1 = (r2, w2, t2)" by (rule prod_cases3)
    with m Inr have b: "bnd m f w = (r2, w2, t @ t2)" by (simp add: bnd_def)
    from assms(2) [of x w1] show ?thesis
    proof
      assume "pauses (f x w1)"
      with f have "r2 = Inr True" "ends_with_pause t2" by (simp_all add: pauses_def events_def)
      with ends_with_pause_prepend [OF qt] b have "pauses (bnd m f w)"
        by (simp add: pauses_def events_def)
      then show ?thesis ..
    next
      assume "quiet (f x w1)"
      with f qt b have "quiet (bnd m f w)" by (simp add: quiet_def events_def)
      then show ?thesis ..
    qed
  qed
qed

lemma apply_manual:
  "pauses (click_easy_apply_and_fill d job_url resume_path cover_text phone False w)
   \<or> quiet (click_easy_apply_and_fill d job_url resume_path cover_text phone False w)"
  unfolding click_easy_apply_and_fill_def
proof (intro pauses_or_quiet_bnd quiet_open_job_page quiet_find_easy_btn)
  fix x :: unit and w1 :: 'a and easy_btn :: "elem option" and w2 :: 'a
  show "pauses ((case easy_btn of
         None \<Rightarrow> bnd (print (NoEasyApplyFound job_url)) (\<lambda>_. ret False)
       | Some b \<Rightarrow>
           bnd (try_except
                  (bnd (click d b) (\<lambda>_. bnd (print ClickedEasyApply) (\<lambda>_. ret True)))
                  (\<lambda>e. bnd (print (ClickFailed e)) (\<lambda>_. ret False))) (\<lambda>clicked.
             if \<not> clicked then ret False
             else
               bnd (sleep d) (\<lambda>_.
               bnd (try_except (bnd (wait_presence d 6 XPATH dialog_xpath) (\<lambda>_. ret ()))
                      (\<lambda>_. ret ())) (\<lambda>_.
               bnd (sleep d) (\<lambda>_.
               bnd (fill_fields d resume_path cover_text phone) (\<lambda>_.
               run_steps d False)))))) w2)
     \<or> quiet ((case easy_btn of
         None \<Rightarrow> bnd (print (NoEasyApplyFound job_url)) (\<lambda>_. ret False)
       | Some b \<Rightarrow>
           bnd (try_except
                  (bnd (click d b) (\<lambda>_. bnd (print ClickedEasyApply) (\<lambda>_. ret True)))
                  (\<lambda>e. bnd (print (ClickFailed e)) (\<lambda>_. ret False))) (\<lambda>clicked.
             if \<not> clicked then ret False
             else
               bnd (sleep d) (\<lambda>_.
               bnd (try_except (bnd (wait_presence d 6 XPATH dialog_xpath) (\<lambda>_. ret ()))
                      (\<lambda>_. ret ())) (\<lambda>_.
               bnd (sleep d) (\<lambda>_.
               bnd (fill_fields d resume_path cover_text phone) (\<lambda>_.
               run_steps d False)))))) w2)"
  proof (cases easy_btn)
    case None
    have "quiet (bnd (print (NoEasyApplyFound job_url)) (\<lambda>_. ret False) w2)"
      by (intro quiet_intros) simp
    with None show ?thesis by simp
  next
    case (Some b)
    have c: "quiet (try_except
                  (bnd (click d b) (\<lambda>_. bnd (print ClickedEasyApply) (\<lambda>_. ret True)))
                  (\<lambda>e. bnd (print (ClickFailed e)) (\<lambda>_. ret False)) w2)"
      by (intro quiet_intros) simp_all
    have rest: "pauses ((if \<not> clicked then ret False
             else
               bnd (sleep d) (\<lambda>_.
               bnd (try_except (bnd (wait_presence d 6 XPATH dialog_xpath) (\<lambda>_. ret ()))
                      (\<lambda>_. ret ())) (\<lambda>_.
               bnd (sleep d) (\<lambda>_.
               bnd (fill_fields d resume_path cover_text phone) (\<lambda>_.
               run_steps d False))))) w3)
      \<or> quiet ((if \<not> clicked then ret False
             else
               bnd (sleep d) (\<lambda>_.
               bnd (try_except (bnd (wait_presence d 6 XPATH dialog_xpath) (\<lambda>_. ret ()))
                      (\<lambda>_. ret ())) (\<lambda>_.
               bnd (sleep d) (\<lambda>_.
               bnd (fill_fields d resume_path cover_text phone) (\<lambda>_.
               run_steps d False))))) w3)" for clicked and w3 :: 'a
    proof (cases clicked)
      case False
      then show ?thesis by (simp add: quiet_ret)
    next
      case True
      have "pauses (bnd (sleep d) (\<lambda>_.
               bnd (try_except (bnd (wait_presence d 6 XPATH dialog_xpath) (\<lambda>_. ret ()))
                      (\<lambda>_. ret ())) (\<lambda>_.
               bnd (sleep d) (\<lambda>_.
               bnd (fill_fields d resume_path cover_text phone) (\<lambda>_.
               run_steps d False)))) w3)
        \<or> quiet (bnd (sleep d) (\<lambda>_.
               bnd (try_except (bnd (wait_presence d 6 XPATH dialog_xpath) (\<lambda>_. ret ()))
                      (\<lambda>_. ret ())) (\<lambda>_.
               bnd (sleep d) (\<lambda>_.
               bnd (fill_fields d resume_path cover_text phone) (\<lambda>_.
               run_steps d False)))) w3)"
        by (intro pauses_or_quiet_bnd quiet_intros quiet_fill_fields run_steps_manual)
      with True show ?thesis by simp
    qed
    have "pauses (bnd (try_except
                  (bnd (click d b) (\<lambda>_. bnd (print ClickedEasyApply) (\<lambda>_. ret True)))
                  (\<lambda>e. bnd (print (ClickFailed e)) (\<lambda>_. ret False))) (\<lambda>clicked.
             if \<not> clicked then ret False
             else
               bnd (sleep d) (\<lambda>_.
               bnd (try_except (bnd (wait_presence d 6 XPATH dialog_xpath) (\<lambda>_. ret ()))
                      (\<lambda>_. ret ())) (\<lambda>_.
               bnd (sleep d) (\<lambda>_.
               bnd (fill_fields d resume_path cover_text phone) (\<lambda>_.
               run_steps d False))))) w2)
      \<or> quiet (bnd (try_except
                  (bnd (click d b) (\<lambda>_. bnd (print ClickedEasyApply) (\<lambda>_. ret True)))
                  (\<lambda>e. bnd (print (ClickFailed e)) (\<lambda>_. ret False))) (\<lambda>clicked.
             if \<not> clicked then ret False
             else
               bnd (sleep d) (\<lambda>_.
               bnd (try_except (bnd (wait_presence d 6 XPATH dialog_xpath) (\<lambda>_. ret ()))
                      (\<lambda>_. ret ())) (\<lambda>_.
               bnd (sleep d) (\<lambda>_.
               bnd (fill_fields d resume_path cover_text phone) (\<lambda>_.
               run_steps d False))))) w2)"
      using c by (rule pauses_or_quiet_bnd) (rule rest)
    with Some show ?thesis by simp
  qed
qed

lemma lower_submit_application: "lower ''Submit application'' = ''submit application''"
  by code_simp

lemma max_steps_Suc: "max_steps = Suc (Suc (Suc (Suc (Suc (Suc (Suc (Suc 0)))))))"
  by (simp add: max_steps_def eval_nat_numeral)

lemma three_steps_events:
  "events (click_easy_apply_and_fill wizard ''https://x.test/jobs/view/11'' (Some ''cv.pdf'')
      (Some ''Dear team'') (Some ''555'') False three_steps)
   = [Get ''https://x.test/jobs/view/11'', Sleep, ExecuteScript scroll_to_js, Sleep,
      WaitClickable 4 XPATH easy_apply_xpath, Click 1, Print ClickedEasyApply, Sleep,
      WaitPresence 6 XPATH dialog_xpath, Sleep,
      FindElements XPATH file_input_xpath, FindElements TAG_NAME ''textarea'',
      FindElements XPATH contenteditable_xpath, FindElements XPATH phone_xpath,
      Sleep, FindElement XPATH submit_xpath, FindElement XPATH next_xpath, IsDisplayed 10,
      IsEnabled 10, Click 10, Sleep,
      Sleep, FindElement XPATH submit_xpath, FindElement XPATH next_xpath, IsDisplayed 10,
      IsEnabled 10, Click 10, Sleep,
      Sleep, FindElement XPATH submit_xpath, Text 20,
      Print (ReachedFinalStep ''submit application''), Print PausingForManualReview, Sleep]"
  by (simp add: events_def click_easy_apply_and_fill_def open_job_page_def find_easy_btn_def
      fill_fields_def upload_resume_def fill_cover_def fill_textareas_def
      fill_contenteditable_def fill_phone_def run_steps_def max_steps_Suc try_submit_def
      close_modal_def safe_send_keys_def three_steps_def job_page_def next_page_def
      review_page_def sim_eval strip_def isspace_def lower_submit_application
      easy_apply_xpath_def easy_apply_loose_xpath_def dialog_xpath_def file_input_xpath_def
      contenteditable_xpath_def phone_xpath_def submit_xpath_def next_xpath_def
      continue_xpath_def close_xpath_def any_in_def final_keywords_def)

lemma get_attribute_Inr:
  "fst (el_get_attribute d e a w) = Inr x \<Longrightarrow>
   \<exists>w1. get_attribute d e a w = (Inr x, w1, [GetAttribute e a])"
  by (cases "el_get_attribute d e a w") (simp add: get_attribute_def call_def)

lemma is_displayed_Inr:
  "fst (el_is_displayed d e w) = Inr x \<Longrightarrow>
   \<exists>w1. is_displayed d e w = (Inr x, w1, [IsDisplayed e])"
  by (cases "el_is_displayed d e w") (simp add: is_displayed_def call_def)

lemma safe_send_keys_calls:
  "\<exists>r w1 t. safe_send_keys d e s w = (r, w1, t) \<and> filter is_send_keys t = [SendKeys e s]"
proof -
  obtain r1 wa where c: "el_clear d e w = (r1, wa)" by (cases "el_clear d e w")
  obtain r2 wb where k: "el_send_keys d e s wa = (r2, wb)" by (cases "el_send_keys d e s wa")
  from c k show ?thesis
    by (cases r1)
       (simp_all add: safe_send_keys_def bnd_def try_except_def clear_def send_keys_def
          call_def ret_def)
qed

lemma keyword_loop_form:
  fixes d :: "'w webdriver"
  assumes st: "static_form d tas ph nm vis dvs aria clk"
  shows "\<exists>r w1 t. keyword_loop d c xs w = (r, w1, t)
       \<and> filter is_send_keys t
          = (case find (\<lambda>ta. textarea_matches (ph ta) (nm ta)) xs of
               Some ta \<Rightarrow> [SendKeys ta c] | None \<Rightarrow> [])
       \<and> ((r = Inr False) = (find (\<lambda>ta. textarea_matches (ph ta) (nm ta)) xs = None))"
proof (induction xs arbitrary: w)
  case Nil
  then show ?case by (simp add: ret_def)
next
  case (Cons ta xs)
  from st have "fst (el_get_attribute d ta ''placeholder'' w) = Inr (ph ta)"
    by (simp add: static_form_def)
  from get_attribute_Inr [OF this] obtain w1 where
    1: "get_attribute d ta ''placeholder'' w = (Inr (ph ta), w1, [GetAttribute ta ''placeholder''])"
    by blast
  from st have "fst (el_get_attribute d ta ''name'' w1) = Inr (nm ta)"
    by (simp add: static_form_def)
  from get_attribute_Inr [OF this] obtain w2 where
    2: "get_attribute d ta ''name'' w1 = (Inr (nm ta), w2, [GetAttribute ta ''name''])"
    by blast
  show ?case
  proof (cases "textarea_matches (ph ta) (nm ta)")
    case True
    from safe_send_keys_calls [of d ta c w2] obtain r3 w3 t3 where
      s: "safe_send_keys d ta c w2 = (r3, w3, t3)"
      and f: "filter is_send_keys t3 = [SendKeys ta c]" by blast
    from True s f show ?thesis
      by (cases r3) (simp_all add: bnd_def 1 2 print_def ret_def)
  next
    case False
    from Cons [of w2] obtain r3 w3 t3 where
      "keyword_loop d c xs w2 = (r3, w3, t3)"
      "filter is_send_keys t3
          = (case find (\<lambda>ta. textarea_matches (ph ta) (nm ta)) xs of
               Some ta \<Rightarrow> [SendKeys ta c] | None \<Rightarrow> [])"
      "(r3 = Inr False) = (find (\<lambda>ta. textarea_matches (ph ta) (nm ta)) xs = None)" by auto
    with False show ?thesis by (simp add: bnd_def 1 2)
  qed
qed

lemma visible_loop_form:
  fixes d :: "'w webdriver"
  assumes st: "static_form d tas ph nm vis dvs aria clk"
  shows "\<exists>r w1 t. visible_loop d c xs w = (r, w1, t)
       \<and> filter is_send_keys t
          = (case find vis xs of Some ta \<Rightarrow> [SendKeys ta c] | None \<Rightarrow> [])"
proof (induction xs arbitrary: w)
  case Nil
  then show ?case by (simp add: ret_def)
next
  case (Cons ta xs)
  from st have "fst (el_is_displayed d ta w) = Inr (vis ta)" by (simp add: static_form_def)
  from is_displayed_Inr [OF this] obtain w1 where
    1: "is_displayed d ta w = (Inr (vis ta), w1, [IsDisplayed ta])" by blast
  show ?case
  proof (cases "vis ta")
    case True
    from safe_send_keys_calls [of d ta c w1] obtain r3 w3 t3 where
      s: "safe_send_keys d ta c w1 = (r3, w3, t3)"
      and f: "filter is_send_keys t3 = [SendKeys ta c]" by blast
    from True s f show ?thesis
      by (cases r3) (simp_all add: bnd_def 1 print_def ret_def)
  next
    case False
    from Cons [of w1] obtain r3 w3 t3 where
      "visible_loop d c xs w1 = (r3, w3, t3)"
      "filter is_send_keys t3 = (case find vis xs of Some ta \<Rightarrow> [SendKeys ta c] | None \<Rightarrow> [])"
      by blast
    with False show ?thesis by (simp add: bnd_def 1)
  qed
qed

lemma fill_textareas_form:
  fixes d :: "'w webdriver"
  assumes st: "static_form d tas ph nm vis dvs aria clk"
  shows "\<exists>w1 t. fill_textareas d c w = (Inr (), w1, t)
       \<and> filter is_send_keys t
          = (case find (\<lambda>ta. textarea_matches (ph ta) (nm ta)) tas of
               Some ta \<Rightarrow> [SendKeys ta c]
             | None \<Rightarrow> (case find vis tas of Some ta \<Rightarrow> [SendKeys ta c] | None \<Rightarrow> []))"
proof -
  from st have "fst (drv_find_elements d TAG_NAME ''textarea'' w) = Inr tas"
    by (simp add: static_form_def)
  from find_elements_Inr [OF this] obtain w1 where
    1: "find_elements d TAG_NAME ''textarea'' w = (Inr tas, w1, [FindElements TAG_NAME ''textarea''])"
    by blast
  from keyword_loop_form [OF st, of c tas w1] obtain r2 w2 t2 where
    2: "keyword_loop d c tas w1 = (r2, w2, t2)"
    and f2: "filter is_send_keys t2
          = (case find (\<lambda>ta. textarea_matches (ph ta) (nm ta)) tas of
               Some ta \<Rightarrow> [SendKeys ta c] | None \<Rightarrow> [])"
    and n2: "(r2 = Inr False) = (find (\<lambda>ta. textarea_matches (ph ta) (nm ta)) tas = None)"
    by auto
  from visible_loop_form [OF st, of c tas w2] obtain r3 w3 t3 where
    3: "visible_loop d c tas w2 = (r3, w3, t3)"
    and f3: "filter is_send_keys t3
          = (case find vis tas of Some ta \<Rightarrow> [SendKeys ta c] | None \<Rightarrow> [])" by blast
  show ?thesis
  proof (cases "find (\<lambda>ta. textarea_matches (ph ta) (nm ta)) tas")
    case (Some ta)
    with n2 have ne: "r2 \<noteq> Inr False" by simp
    show ?thesis
    proof (cases r2)
      case (Inl e)
      with Some 1 2 f2 show ?thesis
        by (simp add: fill_textareas_def try_except_def bnd_def ret_def print_def)
    next
      case (Inr b)
      with ne have "b" by simp
      with Inr Some 1 2 f2 show ?thesis
        by (simp add: fill_textareas_def try_except_def bnd_def ret_def)
    qed
  next
    case None
    with n2 have r2: "r2 = Inr False" by simp
    show ?thesis
    proof (cases "tas = []")
      case True
      with None r2 1 2 f2 show ?thesis
        by (simp add: fill_textareas_def try_except_def bnd_def ret_def)
    next
      case False
      with None r2 1 2 f2 3 f3 show ?thesis
        by (cases r3) (simp_all add: fill_textareas_def try_except_def bnd_def ret_def print_def)
    qed
  qed
qed

lemma contenteditable_loop_form:
  fixes d :: "'w webdriver"
  assumes st: "static_form d tas ph nm vis dvs aria clk"
  shows "\<exists>r w1 t. contenteditable_loop d c xs w = (r, w1, t)
       \<and> filter is_send_keys t
          = (case find (\<lambda>dv. contenteditable_matches (aria dv)) xs of
               Some dv \<Rightarrow> if clk dv then [SendKeys dv (take 1000 c)] else [] | None \<Rightarrow> [])"
proof (induction xs arbitrary: w)
  case Nil
  then show ?case by (simp add: ret_def)
next
  case (Cons dv xs)
  from st have "fst (el_get_attribute d dv ''aria-label'' w) = Inr (aria dv)"
    by (simp add: static_form_def)
  from get_attribute_Inr [OF this] obtain w1 where
    1: "get_attribute d dv ''aria-label'' w = (Inr (aria dv), w1, [GetAttribute dv ''aria-label''])"
    by blast
  show ?case
  proof (cases "contenteditable_matches (aria dv)")
    case True
    obtain r2 w2 where c2: "el_click d dv w1 = (r2, w2)" by (cases "el_click d dv w1")
    from st have k: "returned (el_click d dv w1) = clk dv" by (simp add: static_form_def)
    obtain r3 w3 where c3: "el_send_keys d dv (take 1000 c) w2 = (r3, w3)"
      by (cases "el_send_keys d dv (take 1000 c) w2")
    show ?thesis
    proof (cases r2)
      case (Inl e)
      with k c2 have "\<not> clk dv" by (simp add: returned_def)
      with True c2 Inl show ?thesis
        by (simp add: bnd_def 1 click_def call_def)
    next
      case (Inr u)
      with k c2 have "clk dv" by (simp add: returned_def)
      with True c2 Inr c3 show ?thesis
        by (cases r3) (simp_all add: bnd_def 1 click_def send_keys_def call_def print_def)
    qed
  next
    case False
    from Cons [of w1] obtain r3 w3 t3 where
      "contenteditable_loop d c xs w1 = (r3, w3, t3)"
      "filter is_send_keys t3
          = (case find (\<lambda>dv. contenteditable_matches (aria dv)) xs of
               Some dv \<Rightarrow> if clk dv then [SendKeys dv (take 1000 c)] else [] | None \<Rightarrow> [])"
      by blast
    with False show ?thesis by (simp add: bnd_def 1)
  qed
qed

lemma fill_contenteditable_form:
  fixes d :: "'w webdriver"
  assumes st: "static_form d tas ph nm vis dvs aria clk"
  shows "\<exists>w1 t. fill_contenteditable d c w = (Inr (), w1, t)
       \<and> filter is_send_keys t
          = (if strip c \<noteq> [] then
               (case find (\<lambda>dv. contenteditable_matches (aria dv)) dvs of
                  Some dv \<Rightarrow> if clk dv then [SendKeys dv (take 1000 c)] else [] | None \<Rightarrow> [])
             else [])"
proof (cases "strip c = []")
  case True
  then show ?thesis by (simp add: fill_contenteditable_def ret_def)
next
  case False
  from st have "fst (drv_find_elements d XPATH contenteditable_xpath w) = Inr dvs"
    by (simp add: static_form_def)
  from find_elements_Inr [OF this] obtain w1 where
    1: "find_elements d XPATH contenteditable_xpath w
          = (Inr dvs, w1, [FindElements XPATH contenteditable_xpath])" by blast
  from contenteditable_loop_form [OF st, of c dvs w1] obtain r2 w2 t2 where
    "contenteditable_loop d c dvs w1 = (r2, w2, t2)"
    "filter is_send_keys t2
          = (case find (\<lambda>dv. contenteditable_matches (aria dv)) dvs of
               Some dv \<Rightarrow> if clk dv then [SendKeys dv (take 1000 c)] else [] | None \<Rightarrow> [])"
    by blast
  with False 1 show ?thesis
    by (cases r2) (simp_all add: fill_contenteditable_def try_except_def bnd_def ret_def)
qed

lemma fill_cover_form:
  fixes d :: "'w webdriver"
  assumes st: "static_form d tas ph nm vis dvs aria clk" and c: "c \<noteq> []"
  shows "returned (fill_cover d (Some c) w)
       \<and> filter is_send_keys (events (fill_cover d (Some c) w))
          = cover_targets tas ph nm vis dvs aria clk c"
proof -
  from fill_textareas_form [OF st, of c w] obtain w1 t1 where
    1: "fill_textareas d c w = (Inr (), w1, t1)"
    and f1: "filter is_send_keys t1
          = (case find (\<lambda>ta. textarea_matches (ph ta) (nm ta)) tas of
               Some ta \<Rightarrow> [SendKeys ta c]
             | None \<Rightarrow> (case find vis tas of Some ta \<Rightarrow> [SendKeys ta c] | None \<Rightarrow> []))"
    by blast
  from fill_contenteditable_form [OF st, of c w1] obtain w2 t2 where
    2: "fill_contenteditable d c w1 = (Inr (), w2, t2)"
    and f2: "filter is_send_keys t2
          = (if strip c \<noteq> [] then
               (case find (\<lambda>dv. contenteditable_matches (aria dv)) dvs of
                  Some dv \<Rightarrow> if clk dv then [SendKeys dv (take 1000 c)] else [] | None \<Rightarrow> [])
             else [])" by blast
  from c 1 2 have "fill_cover d (Some c) w = (Inr (), w2, t1 @ t2)"
    by (simp add: fill_cover_def bnd_def)
  with f1 f2 show ?thesis by (simp add: returned_def events_def cover_targets_def)
qed

lemmas form_eval = fill_cover_def fill_textareas_def fill_contenteditable_def safe_send_keys_def
  textarea_matches_def contenteditable_matches_def textarea_keywords_def
  contenteditable_keywords_def any_in_def lower_def lower_char_def strip_def isspace_def
  cover_form_page_def note_form_page_def contenteditable_xpath_def events_def

lemmas apply_eval = events_def click_easy_apply_and_fill_def open_job_page_def find_easy_btn_def
  fill_fields_def upload_resume_def fill_cover_def fill_textareas_def
  fill_contenteditable_def fill_phone_def run_steps_def max_steps_Suc try_submit_def
  close_modal_def safe_send_keys_def sim_eval strip_def isspace_def
  easy_apply_xpath_def easy_apply_loose_xpath_def dialog_xpath_def file_input_xpath_def
  contenteditable_xpath_def phone_xpath_def submit_xpath_def next_xpath_def
  continue_xpath_def close_xpath_def any_in_def final_keywords_def

lemma lower_easy_apply: "lower ''Easy Apply'' = ''easy apply''"
  by code_simp

lemma ends_with_pause_no_click: "ends_with_pause t \<Longrightarrow> no_click_since_final_found t"
proof -
  assume "ends_with_pause t"
  then obtain pre b tx where t: "t = pre @ [FindElement XPATH submit_xpath, Text b,
       Print (ReachedFinalStep tx), Print PausingForManualReview, Sleep]"
    and q: "list_all (\<lambda>ev. \<not> is_final_msg ev) pre"
    unfolding ends_with_pause_def by blast
  let ?post = "[Text b, Print (ReachedFinalStep tx), Print PausingForManualReview, Sleep]"
  from t have 1: "t = pre @ FindElement XPATH submit_xpath # ?post" by simp
  from q have 2: "\<not> reached_final_step pre" by (rule quiet_not_reached)
  have 3: "reached_final_step ?post" by (simp add: reached_final_step_def)
  have 4: "list_all (\<lambda>ev. \<not> is_click ev) ?post" by simp
  from 1 2 3 4 show ?thesis unfolding no_click_since_final_found_def by blast
qed


lemma cover_form_page_static:
  "static_form (fixed_page cover_form_page) [1]
     (\<lambda>e. map_of (pg_attr cover_form_page) (e, ''placeholder''))
     (\<lambda>e. map_of (pg_attr cover_form_page) (e, ''name'')) (\<lambda>e. True) [2]
     (\<lambda>e. map_of (pg_attr cover_form_page) (e, ''aria-label'')) (\<lambda>e. True)"
  by (simp add: static_form_def sim_eval cover_form_page_def contenteditable_xpath_def
      returned_def)

lemma refusing_form_page_static:
  "static_form (fixed_page refusing_form_page) [1, 4]
     (\<lambda>e. map_of (pg_attr refusing_form_page) (e, ''placeholder''))
     (\<lambda>e. map_of (pg_attr refusing_form_page) (e, ''name'')) (\<lambda>e. True) [2]
     (\<lambda>e. map_of (pg_attr refusing_form_page) (e, ''aria-label'')) (\<lambda>e. e \<notin> set [4, 2])"
  by (simp add: static_form_def sim_eval refusing_form_page_def contenteditable_xpath_def
      returned_def)

section \<open>Claims\<close>

text \<open>
  C9. The Text Normalizer is idempotent: normalizing a text that is already normalized
  gives the same text, for every string.
\<close>

theorem C9_normalize_idempotent: "normalize (normalize s) = normalize s"
  by (rule normalize_fixed)

text \<open>
  C3, as stated, at \<open>top_k = -1\<close> and three jobs: the claim gives the empty sequence
  (its length, the smaller of -1 and 3, is no length at all), the slice
  \<open>ranked_idx[:-1]\<close> gives two jobs.
\<close>

theorem C3_counterexample:
  "length (ranked_records (rank_jobs_by_similarity toy_libs ''abcd'' [0, 1, 2] (- 1) toy_heap)) = 2"
  by (simp add: toy_eval)

text \<open>
  C3, amended. When the vectorizer accepts the corpus, the ranking returns; for
  \<open>top_k \<ge> 0\<close> it returns the smaller of \<open>top_k\<close> and the number of jobs many records,
  for \<open>top_k < 0\<close> all but the last \<open>- top_k\<close> of the ordering; the scores of the records
  returned are in descending order. So the result is empty when there is no job and when
  \<open>top_k = 0\<close>.
\<close>

theorem C3_rank_length_and_order:
  fixes L :: "'v libs" and top_k :: int
  assumes "argsort_ok (argsort L)"
    and "tfidf_fit L (corpus resume_text jobs h) = Inr transform"
    and "\<forall>r\<in>set jobs. r < length h"
  shows "returned (rank_jobs_by_similarity L resume_text jobs top_k h)
    \<and> length (ranked_records (rank_jobs_by_similarity L resume_text jobs top_k h)) =
        (if 0 \<le> top_k then min (nat top_k) (length jobs) else length jobs - nat (- top_k))
    \<and> (\<exists>ss. map score (ranked_records (rank_jobs_by_similarity L resume_text jobs top_k h))
               = map Some ss \<and> sorted (rev ss))
    \<and> (jobs = [] \<or> top_k = 0 \<longrightarrow>
          ranked_records (rank_jobs_by_similarity L resume_text jobs top_k h) = [])"
proof -
  note c = rank_sorted_closed [OF assms, of top_k]
  let ?res = "rank_jobs_by_similarity L resume_text jobs top_k h"
  have len: "length (ranked_records ?res) =
        (if 0 \<le> top_k then min (nat top_k) (length jobs) else length jobs - nat (- top_k))"
    by (simp only: c(2) length_map c(3))
  have "map score (ranked_records ?res) = map Some (map (\<lambda>i. (map (\<lambda>j. dot L (transform (blank_fix (job_doc (h ! j))))
                               (transform (blank_fix resume_text))) jobs) ! i) (slice_to top_k (argsort L (map uminus (map (\<lambda>j. dot L (transform (blank_fix (job_doc (h ! j))))
                               (transform (blank_fix resume_text))) jobs)))))"
    by (simp only: c(2)) simp
  with c(4) have ex: "\<exists>ss. map score (ranked_records ?res) = map Some ss \<and> sorted (rev ss)"
    by blast
  have "jobs = [] \<or> top_k = 0 \<longrightarrow> length (ranked_records ?res) = 0"
    unfolding len by auto
  then have emp: "jobs = [] \<or> top_k = 0 \<longrightarrow> ranked_records ?res = []"
    by (simp only: length_0_conv)
  from c(1) len ex emp show ?thesis by blast
qed

theorem C3_rank_length_and_order_witness:
  "argsort_ok (argsort toy_libs)
   \<and> tfidf_fit toy_libs (corpus ''abcd'' [0, 1, 2] toy_heap) = Inr length
   \<and> list_all (\<lambda>r. r < length toy_heap) [0, 1, 2]
   \<and> returned (rank_jobs_by_similarity toy_libs ''abcd'' [0, 1, 2] 2 toy_heap)
   \<and> length (ranked_records (rank_jobs_by_similarity toy_libs ''abcd'' [0, 1, 2] 2 toy_heap)) = 2
   \<and> map score (ranked_records (rank_jobs_by_similarity toy_libs ''abcd'' [0, 1, 2] 2 toy_heap))
        = [Some 4, Some 3]"
proof -
  have a: "argsort_ok (argsort toy_libs)" by (rule toy_argsort_ok)
  have b: "tfidf_fit toy_libs (corpus ''abcd'' [0, 1, 2] toy_heap) = Inr length"
    by (simp add: toy_libs_def)
  have c: "\<forall>r\<in>set [0, 1, 2]. r < length toy_heap" by (simp add: toy_heap_def)
  have d: "map score (ranked_records (rank_jobs_by_similarity toy_libs ''abcd'' [0, 1, 2] 2 toy_heap))
        = [Some 4, Some 3]" by (simp add: toy_eval)
  have c': "list_all (\<lambda>r. r < length toy_heap) [0, 1, 2]" by (simp add: toy_heap_def)
  from C3_rank_length_and_order [OF a b c, of 2] a b c' d show ?thesis by simp
qed

text \<open>
  C5, as stated, for eighteen jobs with the same description and the sort of numpy as
  transcribed above: the scores are all equal, and the jobs do not come back in their
  original order (the partition of the quicksort has reversed the second to the
  sixteenth).
\<close>

theorem C5_counterexample:
  "map job_doc same_heap = replicate 18 ''same text''
   \<and> map score (ranked_records
         (rank_jobs_by_similarity np_libs ''same text'' [0..<18] 18 same_heap))
       = replicate 18 (Some 9)
   \<and> map url (ranked_records
         (rank_jobs_by_similarity np_libs ''same text'' [0..<18] 18 same_heap))
       \<noteq> map url same_heap"
proof -
  have 1: "map job_doc same_heap = replicate 18 ''same text''"
    by (simp add: same_heap_def job_doc_def mk_job_def eval_nat_numeral)
  have 2: "map score (ranked_records
         (rank_jobs_by_similarity np_libs ''same text'' [0..<18] 18 same_heap))
       = replicate 18 (Some 9)"
    unfolding same_heap_ranked by (simp add: eval_nat_numeral)
  have 3: "map url (ranked_records
         (rank_jobs_by_similarity np_libs ''same text'' [0..<18] 18 same_heap))
       = map (\<lambda>c. [c]) ''aponmlkjihgfedcbqr''"
    unfolding same_heap_ranked by (simp add: same_heap_def mk_job_def)
  have 4: "map url same_heap = map (\<lambda>c. [c]) ''abcdefghijklmnopqr''"
    by (simp add: same_heap_def mk_job_def)
  from 1 2 show ?thesis unfolding 3 4 by simp
qed

text \<open>
  C5, amended. In every ranking call that returns, the records returned are copies of
  input jobs with a score, in descending order of score; the order among equal scores
  is the one \<open>argsort\<close> gives. When all jobs have the same document, all scores are
  equal.
\<close>

theorem C5_rank_descending_equal_scores:
  fixes L :: "'v libs" and top_k :: int
  assumes "argsort_ok (argsort L)"
    and "tfidf_fit L (corpus resume_text jobs h) = Inr transform"
    and "\<forall>r\<in>set jobs. r < length h"
  shows "(\<exists>ss. map score (ranked_records (rank_jobs_by_similarity L resume_text jobs top_k h))
               = map Some ss \<and> sorted (rev ss))
    \<and> (\<forall>x\<in>set (ranked_records (rank_jobs_by_similarity L resume_text jobs top_k h)).
          \<exists>j\<in>set jobs. x = (h ! j)\<lparr>score := score x\<rparr>)
    \<and> ((\<forall>j\<in>set jobs. job_doc (h ! j) = d) \<longrightarrow>
         (\<forall>x\<in>set (ranked_records (rank_jobs_by_similarity L resume_text jobs top_k h)).
            score x = Some (dot L (transform (blank_fix d)) (transform (blank_fix resume_text)))))"
proof -
  note c = rank_sorted_closed [OF assms, of top_k]
  let ?res = "rank_jobs_by_similarity L resume_text jobs top_k h"
  let ?sims = "map (\<lambda>j. dot L (transform (blank_fix (job_doc (h ! j))))
                               (transform (blank_fix resume_text))) jobs"
  let ?idxs = "slice_to top_k (argsort L (map uminus ?sims))"
  have "map score (ranked_records ?res) = map Some (map (\<lambda>i. ?sims ! i) ?idxs)"
    by (simp only: c(2)) simp
  with c(4) have ex: "\<exists>ss. map score (ranked_records ?res) = map Some ss \<and> sorted (rev ss)"
    by blast
  have cp: "\<forall>x\<in>set (ranked_records ?res). \<exists>j\<in>set jobs. x = (h ! j)\<lparr>score := score x\<rparr>"
    using c(5) by (simp only: c(2)) auto
  have eq: "(\<forall>j\<in>set jobs. job_doc (h ! j) = d) \<longrightarrow>
         (\<forall>x\<in>set (ranked_records ?res).
            score x = Some (dot L (transform (blank_fix d)) (transform (blank_fix resume_text))))"
    using c(5) by (simp only: c(2)) auto
  from ex cp eq show ?thesis by blast
qed

theorem C5_rank_descending_equal_scores_witness:
  "argsort_ok (argsort toy_libs)
   \<and> tfidf_fit toy_libs (corpus ''same text'' [0, 1] twin_heap) = Inr length
   \<and> list_all (\<lambda>r. r < length twin_heap) [0, 1]
   \<and> list_all (\<lambda>j. job_doc (twin_heap ! j) = ''same text'') [0, 1]
   \<and> list_all (\<lambda>x. score x = Some 9)
         (ranked_records (rank_jobs_by_similarity toy_libs ''same text'' [0, 1] 2 twin_heap))"
proof -
  have a: "argsort_ok (argsort toy_libs)" by (rule toy_argsort_ok)
  have b: "tfidf_fit toy_libs (corpus ''same text'' [0, 1] twin_heap) = Inr length"
    by (simp add: toy_libs_def)
  have c: "\<forall>r\<in>set [0, 1]. r < length twin_heap" by (simp add: twin_heap_def)
  have d: "\<forall>j\<in>set [0, 1]. job_doc (twin_heap ! j) = ''same text''"
    by (simp add: twin_heap_def job_doc_def mk_job_def)
  have e: "dot toy_libs (length (blank_fix ''same text'')) (length (blank_fix ''same text'')) = 9"
    by (simp add: toy_libs_def blank_fix_def strip_def isspace_def)
  from C5_rank_descending_equal_scores [OF a b c, of 2 "''same text''"] a b c d e
  show ?thesis by (simp add: list_all_iff)
qed

text \<open>
  C10. The ranking does not change its input: whatever it returns or raises, every
  object of the store it was called with is as it was, and the records it returns are
  new objects, so the score is set on copies only.
\<close>

theorem C10_rank_keeps_input:
  "take (length h) (snd (rank_jobs_by_similarity L resume_text jobs top_k h)) = h
   \<and> fresh_refs (length h) (rank_jobs_by_similarity L resume_text jobs top_k h)"
  by (simp add: rank_heap_prefix rank_fresh)



text \<open>
  C2, as stated, for a job URL the browser refuses: \<open>driver.get(job_url)\<close> is outside
  every \<open>try\<close>, so its exception leaves \<open>fetch_job_description\<close>.
\<close>

theorem C2_counterexample:
  "fst (fetch_job_description (fixed_page blank_page) ''linkedin job 42'' 6 ())
     = Inl WebDriverException"
  by (simp add: fetch_job_description_def sim_eval)

text \<open>
  C2, amended. Whenever the navigation \<open>driver.get(job_url)\<close> does not raise, whatever
  the page then does, the extractor returns a job record for that URL; its title, company
  and description are fixed points of the normalizer, with no whitespace at either end
  and no two whitespace characters in a row; and each of them is the empty string when
  its locators find nothing.
\<close>

theorem C2_fetch_returns_normalized:
  fixes d :: "'w webdriver"
  assumes "returned (drv_get d job_url w)"
  shows "\<exists>j. fetched (fetch_job_description d job_url timeout w) = Some j
      \<and> url j = job_url \<and> score j = None
      \<and> normalize (title j) = title j \<and> no_outer_ws (title j) \<and> no_repeated_ws (title j)
      \<and> normalize (company j) = company j \<and> no_outer_ws (company j)
      \<and> no_repeated_ws (company j)
      \<and> normalize (description j) = description j \<and> no_outer_ws (description j)
      \<and> no_repeated_ws (description j)
      \<and> ((\<forall>w. \<not> returned (drv_find_element d XPATH title_xpath w)) \<longrightarrow> title j = [])
      \<and> ((\<forall>w. \<not> returned (drv_find_element d XPATH company_xpath w))
           \<and> (\<forall>w. \<not> returned (drv_find_element d XPATH company_fallback_xpath w))
           \<longrightarrow> company j = [])
      \<and> ((\<forall>w sel ns. fst (drv_find_elements d XPATH sel w) = Inr ns \<longrightarrow> ns = [])
           \<and> (\<forall>w. \<not> returned (drv_find_element d XPATH job_details_xpath w))
           \<longrightarrow> description j = [])"
proof -
  from fetch_returned [OF assms, of timeout] obtain j w' t where
    f: "fetch_job_description d job_url timeout w = (Inr j, w', t)"
    by (auto simp: returned_iff)
  from fetch_stages [OF f] obtain w3 ti w4 tt c w5 tc tx w6 td tx' w7 tf where
    ti: "read_title d w3 = (Inr ti, w4, tt)" and c: "read_company d w4 = (Inr c, w5, tc)"
    and l: "desc_loop d desc_selectors [] w5 = (tx, w6, td)"
    and fb: "job_details_fallback d tx w6 = (Inr tx', w7, tf)"
    and j: "j = \<lparr> url = job_url, title = normalize ti, company = normalize c,
               description = normalize (strip (join_nl tx')), score = None \<rparr>"
    by blast
  have 0: "fetched (fetch_job_description d job_url timeout w) = Some j"
    by (simp add: f fetched_def)
  have 1: "url j = job_url" "score j = None" by (simp_all add: j)
  have 2: "normalize (title j) = title j" "no_outer_ws (title j)" "no_repeated_ws (title j)"
    by (simp_all add: j normalize_fixed normalize_no_outer_ws normalize_no_repeated_ws)
  have 3: "normalize (company j) = company j" "no_outer_ws (company j)"
    "no_repeated_ws (company j)"
    by (simp_all add: j normalize_fixed normalize_no_outer_ws normalize_no_repeated_ws)
  have 4: "normalize (description j) = description j" "no_outer_ws (description j)"
    "no_repeated_ws (description j)"
    by (simp_all add: j normalize_fixed normalize_no_outer_ws normalize_no_repeated_ws)
  have 5: "(\<forall>w. \<not> returned (drv_find_element d XPATH title_xpath w)) \<longrightarrow> title j = []"
  proof
    assume "\<forall>w. \<not> returned (drv_find_element d XPATH title_xpath w)"
    from read_title_empty [OF this ti] show "title j = []" by (simp add: j normalize_empty)
  qed
  have 6: "(\<forall>w. \<not> returned (drv_find_element d XPATH company_xpath w))
           \<and> (\<forall>w. \<not> returned (drv_find_element d XPATH company_fallback_xpath w))
           \<longrightarrow> company j = []"
  proof
    assume a: "(\<forall>w. \<not> returned (drv_find_element d XPATH company_xpath w))
           \<and> (\<forall>w. \<not> returned (drv_find_element d XPATH company_fallback_xpath w))"
    from read_company_empty [OF conjunct1 [OF a] conjunct2 [OF a] c]
    show "company j = []" by (simp add: j normalize_empty)
  qed
  have 7: "(\<forall>w sel ns. fst (drv_find_elements d XPATH sel w) = Inr ns \<longrightarrow> ns = [])
           \<and> (\<forall>w. \<not> returned (drv_find_element d XPATH job_details_xpath w))
           \<longrightarrow> description j = []"
  proof
    assume a: "(\<forall>w sel ns. fst (drv_find_elements d XPATH sel w) = Inr ns \<longrightarrow> ns = [])
           \<and> (\<forall>w. \<not> returned (drv_find_element d XPATH job_details_xpath w))"
    from desc_loop_nothing [OF conjunct1 [OF a], of desc_selectors w5] l have "tx = []" by auto
    with fb have "job_details_fallback d [] w6 = (Inr tx', w7, tf)" by simp
    from fallback_nothing [OF conjunct2 [OF a] this] have "tx' = []" .
    then show "description j = []" by (simp add: j normalize_empty strip_def)
  qed
  from 0 1 2 3 4 5 6 7 show ?thesis by blast
qed

theorem C2_fetch_returns_normalized_witness:
  "returned (drv_get (fixed_page blank_page) ''https://x.test/jobs/view/11'' ())
   \<and> fetched (fetch_job_description (fixed_page blank_page) ''https://x.test/jobs/view/11'' 6 ())
       = Some \<lparr> url = ''https://x.test/jobs/view/11'', title = [], company = [],
                description = [], score = None \<rparr>"
proof -
  let ?d = "fixed_page blank_page"
  have g: "returned (drv_get ?d ''https://x.test/jobs/view/11'' ())"
    by (simp add: sim_eval returned_def)
  have a: "\<forall>w. \<not> returned (drv_find_element ?d XPATH title_xpath w)"
    and b: "\<forall>w. \<not> returned (drv_find_element ?d XPATH company_xpath w)"
    and c: "\<forall>w. \<not> returned (drv_find_element ?d XPATH company_fallback_xpath w)"
    and e: "\<forall>w. \<not> returned (drv_find_element ?d XPATH job_details_xpath w)"
    and f: "\<forall>w sel ns. fst (drv_find_elements ?d XPATH sel w) = Inr ns \<longrightarrow> ns = []"
    by (simp_all add: sim_eval returned_def)
  from C2_fetch_returns_normalized [OF g, of 6] a b c e f obtain j where
    "fetched (fetch_job_description ?d ''https://x.test/jobs/view/11'' 6 ()) = Some j"
    "url j = ''https://x.test/jobs/view/11''" "score j = None" "title j = []" "company j = []"
    "description j = []" by blast
  then have "fetched (fetch_job_description ?d ''https://x.test/jobs/view/11'' 6 ())
       = Some \<lparr> url = ''https://x.test/jobs/view/11'', title = [], company = [],
                description = [], score = None \<rparr>" by simp
  with g show ?thesis by simp
qed

text \<open>
  C7, as stated, on a page where the first description locator finds one element, a
  short label, and the fourth finds the description: the claim stops at the first
  locator and gives the empty description, the code goes on and returns the text the
  fourth locator finds.
\<close>

theorem C7_counterexample:
  "map_option description (fetched (fetch_job_description (fixed_page label_first_page)
       ''https://x.test/jobs/view/11'' 6 ())) = Some long_text
   \<and> normalize (strip (description_as_claimed desc_selectors (found label_first_page XPATH)
       (\<lambda>n. or_empty (map_of (pg_text label_first_page) n)) (Inl NoSuchElementException))) = []"
proof -
  have "returned (fetch_job_description (fixed_page label_first_page)
       ''https://x.test/jobs/view/11'' 6 ())"
    by (rule fetch_returned) (simp add: sim_eval returned_def)
  then obtain j w' t where f: "fetch_job_description (fixed_page label_first_page)
       ''https://x.test/jobs/view/11'' 6 () = (Inr j, w', t)" by (auto simp: returned_iff)
  from fetch_description_static [OF label_first_page_static f]
  have "description j = long_text"
    by (simp add: description_by_first_qualifying_def label_first_page_qualifying
        normalize_long_text)
  then have 1: "map_option description (fetched (fetch_job_description (fixed_page label_first_page)
       ''https://x.test/jobs/view/11'' 6 ())) = Some long_text"
    by (simp add: f fetched_def)
  have 2: "normalize (strip (description_as_claimed desc_selectors (found label_first_page XPATH)
       (\<lambda>n. or_empty (map_of (pg_text label_first_page) n)) (Inl NoSuchElementException))) = []"
    by (simp add: description_as_claimed_def qualifying_def desc_selectors_def
        label_first_page_def sim_eval strip_def isspace_def normalize_def)
  from 1 2 show ?thesis by simp
qed

text \<open>
  C7, amended. On a job page that does not change and raises nothing, the description is
  computed from the locators in the order of \<open>desc_selectors\<close>: the first locator that
  gives any text longer than 50 characters (after trimming) decides, all its such texts
  are joined with newlines and no further locator is tried; if no locator gives such a
  text, the text of the job-details container is taken when it is found, and the empty
  string otherwise. The result is then trimmed and normalized.
\<close>

theorem C7_description_first_qualifying:
  fixes d :: "'w webdriver"
  assumes "static_job_page d nodes txt jd" and "returned (drv_get d job_url w)"
  shows "\<exists>j. fetched (fetch_job_description d job_url timeout w) = Some j
     \<and> description j
         = normalize (strip (description_by_first_qualifying desc_selectors nodes txt jd))"
proof -
  from fetch_returned [OF assms(2), of timeout] obtain j w' t where
    f: "fetch_job_description d job_url timeout w = (Inr j, w', t)"
    by (auto simp: returned_iff)
  from fetch_description_static [OF assms(1) f] f show ?thesis by (simp add: fetched_def)
qed

theorem C7_description_first_qualifying_witness:
  "static_job_page (fixed_page label_first_page) (found label_first_page XPATH)
     (\<lambda>n. or_empty (map_of (pg_text label_first_page) n)) (Inl NoSuchElementException)
   \<and> returned (drv_get (fixed_page label_first_page) ''https://x.test/jobs/view/11'' ())
   \<and> map_option description (fetched (fetch_job_description (fixed_page label_first_page)
       ''https://x.test/jobs/view/11'' 6 ())) = Some long_text"
proof -
  have g: "returned (drv_get (fixed_page label_first_page) ''https://x.test/jobs/view/11'' ())"
    by (simp add: sim_eval returned_def)
  from C7_description_first_qualifying [OF label_first_page_static g, of 6]
  have "map_option description (fetched (fetch_job_description (fixed_page label_first_page)
       ''https://x.test/jobs/view/11'' 6 ())) = Some long_text"
    by (auto simp: description_by_first_qualifying_def label_first_page_qualifying
        normalize_long_text)
  with label_first_page_static g show ?thesis by simp
qed

text \<open>
  C1, as stated, on a job page whose Easy Apply button stays on the page: the locator of
  the final button matches every label that contains Apply, so the button the driver
  clicked to start the application is the one it then reports as the final button. The
  run pauses for manual review, and the control it took as final is one it has clicked.
\<close>

theorem C1_counterexample:
  "fst (drv_find_element wizard XPATH submit_xpath [lasting_button_page]) = Inr 1
   \<and> fst (click_easy_apply_and_fill wizard ''https://x.test/jobs/view/11'' None None None False
          [lasting_button_page]) = Inr True
   \<and> events (click_easy_apply_and_fill wizard ''https://x.test/jobs/view/11'' None None None False
          [lasting_button_page])
       = [Get ''https://x.test/jobs/view/11'', Sleep, ExecuteScript scroll_to_js, Sleep,
          WaitClickable 4 XPATH easy_apply_xpath, Click 1, Print ClickedEasyApply, Sleep,
          WaitPresence 6 XPATH dialog_xpath, Sleep,
          Sleep, FindElement XPATH submit_xpath, Text 1,
          Print (ReachedFinalStep ''easy apply''), Print PausingForManualReview, Sleep]"
  by (simp add: apply_eval lasting_button_page_def lower_easy_apply)

text \<open>
  C1, amended. With \<open>auto_submit\<close> false, in every run that reaches the final step (the
  code prints that it reached it, when the button found has submit, apply or done in its
  text), the driver returns \<open>True\<close> after the pause for manual review, and the run ends
  with: the final button located, its text read, the two messages, the sleep. From the
  search that located the final button on there is no click: the clicks of the run all
  come before it, among them the click on the Easy Apply button, which can be the very
  button found as final. No run with \<open>auto_submit\<close> false prints that it submitted.
\<close>

theorem C1_pause_without_click:
  "(reached_final_step
      (events (click_easy_apply_and_fill d job_url resume_path cover_text phone False w))
    \<longrightarrow> fst (click_easy_apply_and_fill d job_url resume_path cover_text phone False w) = Inr True
        \<and> ends_with_pause
            (events (click_easy_apply_and_fill d job_url resume_path cover_text phone False w))
        \<and> no_click_since_final_found
            (events (click_easy_apply_and_fill d job_url resume_path cover_text phone False w)))
   \<and> Print AutoSubmitted
        \<notin> set (events (click_easy_apply_and_fill d job_url resume_path cover_text phone False w))"
proof -
  let ?R = "click_easy_apply_and_fill d job_url resume_path cover_text phone False w"
  from apply_manual [of d job_url resume_path cover_text phone w] show ?thesis
  proof
    assume "pauses ?R"
    then have v: "fst ?R = Inr True" and e: "ends_with_pause (events ?R)"
      by (simp_all add: pauses_def)
    from e have nc: "no_click_since_final_found (events ?R)" by (rule ends_with_pause_no_click)
    from e obtain pre b tx where ev: "events ?R = pre @ [FindElement XPATH submit_xpath, Text b,
       Print (ReachedFinalStep tx), Print PausingForManualReview, Sleep]"
      and q: "list_all (\<lambda>ev. \<not> is_final_msg ev) pre"
      unfolding ends_with_pause_def by blast
    from q have "Print AutoSubmitted \<notin> set pre" by (auto simp: list_all_iff)
    then have "Print AutoSubmitted \<notin> set (events ?R)" by (simp add: ev)
    with v e nc show ?thesis by simp
  next
    assume "quiet ?R"
    then have q: "list_all (\<lambda>ev. \<not> is_final_msg ev) (events ?R)" by (simp add: quiet_def)
    then have "\<not> reached_final_step (events ?R)" by (rule quiet_not_reached)
    moreover from q have "Print AutoSubmitted \<notin> set (events ?R)" by (auto simp: list_all_iff)
    ultimately show ?thesis by simp
  qed
qed

theorem C1_pause_without_click_witness:
  "reached_final_step (events (click_easy_apply_and_fill wizard ''https://x.test/jobs/view/11''
      (Some ''cv.pdf'') (Some ''Dear team'') (Some ''555'') False three_steps))
   \<and> fst (click_easy_apply_and_fill wizard ''https://x.test/jobs/view/11''
      (Some ''cv.pdf'') (Some ''Dear team'') (Some ''555'') False three_steps) = Inr True
   \<and> ends_with_pause (events (click_easy_apply_and_fill wizard ''https://x.test/jobs/view/11''
      (Some ''cv.pdf'') (Some ''Dear team'') (Some ''555'') False three_steps))
   \<and> no_click_since_final_found (events (click_easy_apply_and_fill wizard
      ''https://x.test/jobs/view/11'' (Some ''cv.pdf'') (Some ''Dear team'') (Some ''555'') False
      three_steps))
   \<and> Click 20 \<notin> set (events (click_easy_apply_and_fill wizard ''https://x.test/jobs/view/11''
      (Some ''cv.pdf'') (Some ''Dear team'') (Some ''555'') False three_steps))"
proof -
  let ?R = "click_easy_apply_and_fill wizard ''https://x.test/jobs/view/11''
      (Some ''cv.pdf'') (Some ''Dear team'') (Some ''555'') False three_steps"
  have r: "reached_final_step (events ?R)"
    unfolding three_steps_events reached_final_step_def by simp
  have c: "Click 20 \<notin> set (events ?R)"
    unfolding three_steps_events by simp
  from C1_pause_without_click [of wizard "''https://x.test/jobs/view/11''" "Some ''cv.pdf''"
      "Some ''Dear team''" "Some ''555''" three_steps] r c
  show ?thesis by simp
qed

text \<open>
  C6, as stated, on two forms. With a textarea and an editable region both for the cover
  letter, the code types into both, where the claim types into the textarea only. With
  no textarea and an editable region labelled as an additional note, the code types
  nowhere, where the claim types into the region (note and additional are keywords of
  the textareas only).
\<close>

theorem C6_counterexample:
  "filter is_send_keys (events (fill_cover (fixed_page cover_form_page) (Some ''Dear team'') ()))
     = [SendKeys 1 ''Dear team'', SendKeys 2 ''Dear team'']
   \<and> cover_targets_as_claimed [1] (\<lambda>e. map_of (pg_attr cover_form_page) (e, ''placeholder''))
        (\<lambda>e. map_of (pg_attr cover_form_page) (e, ''name'')) (\<lambda>e. True) [2]
        (\<lambda>e. map_of (pg_attr cover_form_page) (e, ''aria-label'')) ''Dear team''
     = [SendKeys 1 ''Dear team'']
   \<and> filter is_send_keys (events (fill_cover (fixed_page note_form_page) (Some ''Dear team'') ()))
     = []
   \<and> cover_targets_as_claimed [] (\<lambda>e. map_of (pg_attr note_form_page) (e, ''placeholder''))
        (\<lambda>e. map_of (pg_attr note_form_page) (e, ''name'')) (\<lambda>e. True) [3]
        (\<lambda>e. map_of (pg_attr note_form_page) (e, ''aria-label'')) ''Dear team''
     = [SendKeys 3 ''Dear team'']"
  by (simp add: form_eval sim_eval cover_targets_as_claimed_def)

text \<open>
  C6, amended. On a form that can be read and does not change (the textareas and the
  editable regions found, their attributes, whether they are displayed and whether a
  click on one returns are the same in every state), with a cover text that is not
  empty: the cover text is sent to the first textarea whose placeholder or name contains
  one of the seven keywords (in lower case), whether it is displayed or not, and to no
  other textarea, also when that textarea refuses it; if there is none, it is sent to
  the first displayed textarea. Then, whether or not a textarea was filled, and if the
  cover text is not blank, the first editable region whose label contains one of cover,
  message, summary, why is clicked and, unless the click raises, the first 1000
  characters of the cover text are sent to it. Nothing else is typed, and no exception
  leaves the filling.
\<close>

theorem C6_cover_text_targets:
  fixes d :: "'w webdriver"
  assumes "static_form d tas ph nm vis dvs aria clk" and "cover \<noteq> []"
  shows "returned (fill_cover d (Some cover) w)
       \<and> filter is_send_keys (events (fill_cover d (Some cover) w))
          = cover_targets tas ph nm vis dvs aria clk cover"
  using assms by (rule fill_cover_form)

theorem C6_cover_text_targets_witness:
  "static_form (fixed_page cover_form_page) [1]
     (\<lambda>e. map_of (pg_attr cover_form_page) (e, ''placeholder''))
     (\<lambda>e. map_of (pg_attr cover_form_page) (e, ''name'')) (\<lambda>e. True) [2]
     (\<lambda>e. map_of (pg_attr cover_form_page) (e, ''aria-label'')) (\<lambda>e. True)
   \<and> ''Dear team'' \<noteq> []
   \<and> returned (fill_cover (fixed_page cover_form_page) (Some ''Dear team'') ())
   \<and> filter is_send_keys (events (fill_cover (fixed_page cover_form_page) (Some ''Dear team'') ()))
       = [SendKeys 1 ''Dear team'', SendKeys 2 ''Dear team'']
   \<and> static_form (fixed_page refusing_form_page) [1, 4]
     (\<lambda>e. map_of (pg_attr refusing_form_page) (e, ''placeholder''))
     (\<lambda>e. map_of (pg_attr refusing_form_page) (e, ''name'')) (\<lambda>e. True) [2]
     (\<lambda>e. map_of (pg_attr refusing_form_page) (e, ''aria-label'')) (\<lambda>e. e \<notin> set [4, 2])
   \<and> returned (fill_cover (fixed_page refusing_form_page) (Some ''Dear team'') ())
   \<and> filter is_send_keys (events (fill_cover (fixed_page refusing_form_page) (Some ''Dear team'') ()))
       = [SendKeys 4 ''Dear team'']
   \<and> Print (CoverTextareaFillFailed WebDriverException)
       \<in> set (events (fill_cover (fixed_page refusing_form_page) (Some ''Dear team'') ()))"
proof -
  have n: "''Dear team'' \<noteq> []" by simp
  have t: "cover_targets [1] (\<lambda>e. map_of (pg_attr cover_form_page) (e, ''placeholder''))
     (\<lambda>e. map_of (pg_attr cover_form_page) (e, ''name'')) (\<lambda>e. True) [2]
     (\<lambda>e. map_of (pg_attr cover_form_page) (e, ''aria-label'')) (\<lambda>e. True) ''Dear team''
     = [SendKeys 1 ''Dear team'', SendKeys 2 ''Dear team'']"
    by (simp add: cover_targets_def form_eval or_empty_def)
  have t': "cover_targets [1, 4] (\<lambda>e. map_of (pg_attr refusing_form_page) (e, ''placeholder''))
     (\<lambda>e. map_of (pg_attr refusing_form_page) (e, ''name'')) (\<lambda>e. True) [2]
     (\<lambda>e. map_of (pg_attr refusing_form_page) (e, ''aria-label'')) (\<lambda>e. e \<notin> set [4, 2])
     ''Dear team'' = [SendKeys 4 ''Dear team'']"
    by (simp add: cover_targets_def form_eval or_empty_def refusing_form_page_def)
  have p: "Print (CoverTextareaFillFailed WebDriverException)
       \<in> set (events (fill_cover (fixed_page refusing_form_page) (Some ''Dear team'') ()))"
    by (simp add: form_eval sim_eval refusing_form_page_def)
  from C6_cover_text_targets [OF cover_form_page_static n, of "()"]
    C6_cover_text_targets [OF refusing_form_page_static n, of "()"]
    t t' p cover_form_page_static refusing_form_page_static
  show ?thesis by simp
qed

text \<open>
  C8, as stated, on a job page whose Easy Apply button is disabled: the wait for a
  clickable button times out, the second locator finds the button and the click on it
  raises nothing, so the driver goes on as if the form had opened. It looks for the file
  input, the textareas, the editable regions and the phone input, and runs a turn of the
  step loop.
\<close>

theorem C8_counterexample:
  "fst (drv_wait_clickable wizard 4 XPATH easy_apply_xpath [disabled_button_page])
     = Inl TimeoutException
   \<and> fst (el_is_enabled wizard 7 [disabled_button_page]) = Inr False
   \<and> fst (click_easy_apply_and_fill wizard ''https://x.test/jobs/view/11'' (Some ''cv.pdf'')
          (Some ''Dear team'') (Some ''555'') False [disabled_button_page]) = Inr False
   \<and> events (click_easy_apply_and_fill wizard ''https://x.test/jobs/view/11'' (Some ''cv.pdf'')
          (Some ''Dear team'') (Some ''555'') False [disabled_button_page])
       = [Get ''https://x.test/jobs/view/11'', Sleep, ExecuteScript scroll_to_js, Sleep,
          WaitClickable 4 XPATH easy_apply_xpath, FindElement XPATH easy_apply_loose_xpath,
          Click 7, Print ClickedEasyApply, Sleep, WaitPresence 6 XPATH dialog_xpath, Sleep,
          FindElements XPATH file_input_xpath, FindElements TAG_NAME ''textarea'',
          FindElements XPATH contenteditable_xpath, FindElements XPATH phone_xpath,
          Sleep, FindElement XPATH submit_xpath, FindElement XPATH next_xpath,
          FindElement XPATH continue_xpath, Print DidNotFindFinalSubmit,
          FindElement XPATH close_xpath]"
  by (simp add: apply_eval disabled_button_page_def)

text \<open>
  C8, amended. Once the job page is open: when the wait for the Easy Apply button times
  out and the second locator finds nothing, and when a button is found and clicking it
  raises, the driver returns \<open>False\<close> after printing that no entry point was found (or
  that the click failed), and the events of the whole run are the ones listed: opening
  the page, the one or two searches for the button, the click if there is one, and the
  message. No file input, textarea, editable region or phone input is looked for, no key
  is sent and nothing of the step loop runs. A button that is found and whose click
  raises nothing counts as activated, whether it is enabled or not.
\<close>

theorem C8_no_entry_point:
  fixes d :: "'w webdriver"
  assumes "open_job_page d job_url w = (Inr u, w1, t1)"
  shows "(\<not> returned (drv_wait_clickable d 4 XPATH easy_apply_xpath w1)
        \<and> \<not> returned (drv_find_element d XPATH easy_apply_loose_xpath
                (snd (drv_wait_clickable d 4 XPATH easy_apply_xpath w1)))
      \<longrightarrow> fst (click_easy_apply_and_fill d job_url resume_path cover_text phone auto_submit w)
            = Inr False
        \<and> events (click_easy_apply_and_fill d job_url resume_path cover_text phone auto_submit w)
            = [Get job_url, Sleep, ExecuteScript scroll_to_js, Sleep,
               WaitClickable 4 XPATH easy_apply_xpath, FindElement XPATH easy_apply_loose_xpath,
               Print (NoEasyApplyFound job_url)])
    \<and> (\<forall>b w2 t2. find_easy_btn d w1 = (Inr (Some b), w2, t2) \<and> \<not> returned (el_click d b w2)
      \<longrightarrow> fst (click_easy_apply_and_fill d job_url resume_path cover_text phone auto_submit w)
            = Inr False
        \<and> (\<exists>e. events (click_easy_apply_and_fill d job_url resume_path cover_text phone auto_submit w)
            = [Get job_url, Sleep, ExecuteScript scroll_to_js, Sleep] @ t2
              @ [Click b, Print (ClickFailed e)])
        \<and> (t2 = [WaitClickable 4 XPATH easy_apply_xpath]
             \<or> t2 = [WaitClickable 4 XPATH easy_apply_xpath,
                      FindElement XPATH easy_apply_loose_xpath]))"
proof (intro conjI impI allI)
  note t1 = open_job_page_events [OF assms]
  {
    assume a: "\<not> returned (drv_wait_clickable d 4 XPATH easy_apply_xpath w1)
        \<and> \<not> returned (drv_find_element d XPATH easy_apply_loose_xpath
                (snd (drv_wait_clickable d 4 XPATH easy_apply_xpath w1)))"
    from find_easy_btn_none [OF conjunct1 [OF a] conjunct2 [OF a]] obtain w2 where
      f: "find_easy_btn d w1 = (Inr None, w2,
       [WaitClickable 4 XPATH easy_apply_xpath, FindElement XPATH easy_apply_loose_xpath])"
      by blast
    show "fst (click_easy_apply_and_fill d job_url resume_path cover_text phone auto_submit w)
            = Inr False"
      by (simp add: click_easy_apply_and_fill_def bnd_def assms f print_def ret_def)
    show "events (click_easy_apply_and_fill d job_url resume_path cover_text phone auto_submit w)
            = [Get job_url, Sleep, ExecuteScript scroll_to_js, Sleep,
               WaitClickable 4 XPATH easy_apply_xpath, FindElement XPATH easy_apply_loose_xpath,
               Print (NoEasyApplyFound job_url)]"
      by (simp add: click_easy_apply_and_fill_def bnd_def assms f print_def ret_def events_def t1)
  }
  fix b w2 t2
  assume h: "find_easy_btn d w1 = (Inr (Some b), w2, t2) \<and> \<not> returned (el_click d b w2)"
  then have f: "find_easy_btn d w1 = (Inr (Some b), w2, t2)" by simp
  obtain r3 w3 where c: "el_click d b w2 = (r3, w3)" by (cases "el_click d b w2")
  with h obtain e where r3: "r3 = Inl e" by (cases r3) (simp_all add: returned_def)
  show "fst (click_easy_apply_and_fill d job_url resume_path cover_text phone auto_submit w)
            = Inr False"
    by (simp add: click_easy_apply_and_fill_def bnd_def try_except_def assms f click_def call_def
        c r3 print_def ret_def)
  have "events (click_easy_apply_and_fill d job_url resume_path cover_text phone auto_submit w)
            = [Get job_url, Sleep, ExecuteScript scroll_to_js, Sleep] @ t2
              @ [Click b, Print (ClickFailed e)]"
    by (simp add: click_easy_apply_and_fill_def bnd_def try_except_def assms f click_def call_def
        c r3 print_def ret_def events_def t1)
  then show "\<exists>e. events (click_easy_apply_and_fill d job_url resume_path cover_text phone auto_submit w)
            = [Get job_url, Sleep, ExecuteScript scroll_to_js, Sleep] @ t2
              @ [Click b, Print (ClickFailed e)]" by blast
  from find_easy_btn_events [OF f]
  show "t2 = [WaitClickable 4 XPATH easy_apply_xpath]
             \<or> t2 = [WaitClickable 4 XPATH easy_apply_xpath,
                      FindElement XPATH easy_apply_loose_xpath]" .
qed

theorem C8_no_entry_point_witness:
  "fst (click_easy_apply_and_fill wizard ''https://x.test/jobs/view/11'' (Some ''cv.pdf'')
          (Some ''Dear team'') (Some ''555'') False [blank_page]) = Inr False
   \<and> events (click_easy_apply_and_fill wizard ''https://x.test/jobs/view/11'' (Some ''cv.pdf'')
          (Some ''Dear team'') (Some ''555'') False [blank_page])
       = [Get ''https://x.test/jobs/view/11'', Sleep, ExecuteScript scroll_to_js, Sleep,
          WaitClickable 4 XPATH easy_apply_xpath, FindElement XPATH easy_apply_loose_xpath,
          Print (NoEasyApplyFound ''https://x.test/jobs/view/11'')]
   \<and> fst (click_easy_apply_and_fill wizard ''https://x.test/jobs/view/11'' (Some ''cv.pdf'')
          (Some ''Dear team'') (Some ''555'') False [stuck_button_page]) = Inr False
   \<and> events (click_easy_apply_and_fill wizard ''https://x.test/jobs/view/11'' (Some ''cv.pdf'')
          (Some ''Dear team'') (Some ''555'') False [stuck_button_page])
       = [Get ''https://x.test/jobs/view/11'', Sleep, ExecuteScript scroll_to_js, Sleep,
          WaitClickable 4 XPATH easy_apply_xpath, Click 7, Print (ClickFailed WebDriverException)]"
proof -
  let ?u = "''https://x.test/jobs/view/11''"
  have o1: "open_job_page wizard ?u [blank_page] = (Inr (), [blank_page],
      [Get ?u, Sleep, ExecuteScript scroll_to_js, Sleep])"
    by (simp add: open_job_page_def sim_eval)
  have a1: "\<not> returned (drv_wait_clickable wizard 4 XPATH easy_apply_xpath [blank_page])"
    by (simp add: sim_eval returned_def)
  have a2: "\<not> returned (drv_find_element wizard XPATH easy_apply_loose_xpath
                (snd (drv_wait_clickable wizard 4 XPATH easy_apply_xpath [blank_page])))"
    by (simp add: sim_eval returned_def)
  have o2: "open_job_page wizard ?u [stuck_button_page] = (Inr (), [stuck_button_page],
      [Get ?u, Sleep, ExecuteScript scroll_to_js, Sleep])"
    by (simp add: open_job_page_def sim_eval)
  have b1: "find_easy_btn wizard [stuck_button_page] = (Inr (Some 7), [stuck_button_page],
      [WaitClickable 4 XPATH easy_apply_xpath])"
    by (simp add: find_easy_btn_def sim_eval stuck_button_page_def)
  have b2: "\<not> returned (el_click wizard 7 [stuck_button_page])"
    by (simp add: sim_eval returned_def stuck_button_page_def)
  note A = C8_no_entry_point [OF o1, of "Some ''cv.pdf''" "Some ''Dear team''" "Some ''555''" False,
      THEN conjunct1, rule_format, OF conjI [OF a1 a2]]
  note B = C8_no_entry_point [OF o2, of "Some ''cv.pdf''" "Some ''Dear team''" "Some ''555''" False,
      THEN conjunct2, rule_format, OF conjI [OF b1 b2]]
  have "events (click_easy_apply_and_fill wizard ?u (Some ''cv.pdf'')
          (Some ''Dear team'') (Some ''555'') False [stuck_button_page])
       = [Get ?u, Sleep, ExecuteScript scroll_to_js, Sleep,
          WaitClickable 4 XPATH easy_apply_xpath, Click 7, Print (ClickFailed WebDriverException)]"
    by (simp add: events_def click_easy_apply_and_fill_def sim_eval open_job_page_def
        find_easy_btn_def stuck_button_page_def)
  with A B show ?thesis by simp
qed

end
